(* ===== verification/Calypso_Prelude.thy ===== *)
theory Calypso_Prelude
  imports Main "HOL-Library.Word"
begin

text \<open>
  Shared vocabulary of the development: the C integer types as words, the C idioms the
  devices use (bit tests, masks, big-endian loads), the executions of a device under a
  guard on its inputs, the interface every device model meets, and the generic lemmas on
  lists and words the component theories use.
\<close>

unbundle bit_operations_syntax

section \<open>Machine types\<close>

type_synonym u8 = "8 word"
type_synonym u16 = "16 word"
type_synonym u32 = "32 word"
type_synonym u64 = "64 word"

text \<open>
  An MMIO offset (\<open>hwaddr\<close>) is a natural number: handlers only compare it with constants and
  derive an array index from it inside a range check.
\<close>

type_synonym hwaddr = nat

named_theorems device_defs \<open>definitions of the device operations\<close>
named_theorems inv_intros \<open>one operation keeps the invariant of its device\<close>

section \<open>Bits and masks\<close>

text \<open>
  A flag \<open>(1 << k)\<close> of the source is named by its bit number \<open>k\<close>: the test \<open>x & FLAG\<close> is
  \<open>bit x k\<close>, \<open>x |= FLAG\<close> is \<open>set_bit k x\<close> and \<open>x &= ~FLAG\<close> is \<open>unset_bit k x\<close>. The two
  lemmas below are that reading.
\<close>

lemma flag_test: "(x AND push_bit k 1 \<noteq> 0) = bit x k" for x :: "'a::len word"
  by (simp add: and_exp_eq_0_iff_not_bit)

lemma flag_set_clear:
  fixes x :: "'a::len word"
  shows "set_bit k x = x OR push_bit k 1" and "unset_bit k x = x AND NOT (push_bit k 1)"
  by (simp_all add: set_bit_eq_or unset_bit_eq_and_not)

lemma mask_take_bit:
  fixes x :: "'a::len word"
  shows "x AND 0x1F = take_bit 5 x" and "x AND 0x7F = take_bit 7 x" and "x AND 0xFF = take_bit 8 x"
    and "x AND 0xFFFF = take_bit 16 x" and "x AND 0x3FF = take_bit 10 x" and "x AND 0x07 = take_bit 3 x"
    and "x AND 0x3F = take_bit 6 x" and "x AND 0x0F = take_bit 4 x" and "x AND 0x1FFF = take_bit 13 x"
    and "x AND 0x7FF = take_bit 11 x" and "x AND 0x03 = take_bit 2 x"
  by (simp_all add: take_bit_eq_mask mask_eq_exp_minus_1)

lemma word_eq_bits: "w = v \<longleftrightarrow> (\<forall>n < LENGTH('a). bit w n = bit v n)" for w v :: "'a::len word"
  by (auto intro: bit_word_eqI)

lemma unat_take_bit_lt: "unat (take_bit n x) < 2 ^ n"
  by (simp add: unsigned_take_bit_eq)

lemma bit_above_lt:
  fixes x :: "'a::len word"
  assumes "unat x < 2 ^ n" and "n \<le> m"
  shows "\<not> bit x m"
proof
  assume "bit x m"
  then have "bit (unat x) m" by (simp add: bit_unsigned_iff bit_imp_le_length)
  then have "odd (unat x div 2 ^ m)" by (simp add: bit_iff_odd)
  moreover have "unat x < 2 ^ m"
    using assms by (meson less_le_trans one_le_numeral power_increasing)
  ultimately show False by simp
qed

lemma unat_lt_bits:
  fixes x :: "'a::len word"
  shows "unat x < 2 ^ n \<longleftrightarrow> (\<forall>m \<ge> n. \<not> bit x m)"
proof
  assume "unat x < 2 ^ n"
  then show "\<forall>m \<ge> n. \<not> bit x m" by (auto dest: bit_above_lt)
next
  assume "\<forall>m \<ge> n. \<not> bit x m"
  then have "take_bit n x = x" by (intro bit_eqI) (auto simp: bit_take_bit_iff not_less [symmetric])
  then show "unat x < 2 ^ n" using unat_take_bit_lt [of n x] by simp
qed

lemma unat_of_nat_u16: "n < 65536 \<Longrightarrow> unat (of_nat n :: u16) = n"
  by (simp add: unsigned_of_nat take_bit_nat_eq_self)

lemma unat_lt2p: "unat w < 2 ^ LENGTH('a)" for w :: "'a::len word"
  by (rule unsigned_less)

lemma unat_ucast_u16 [simp]: "unat (ucast (x :: u16) :: u32) = unat x" "unat (ucast (x :: u16) :: u64) = unat x"
  using unat_lt2p [of x] by (simp_all add: unsigned_ucast_eq take_bit_nat_eq_self)

lemma unat_ucast_u8 [simp]: "unat (ucast (x :: u8) :: u16) = unat x" "unat (ucast (x :: u8) :: u32) = unat x"
    "unat (ucast (x :: u8) :: u64) = unat x"
  using unat_lt2p [of x] by (simp_all add: unsigned_ucast_eq take_bit_nat_eq_self)

lemma ucast_back [simp]: "ucast (ucast w :: u32) = w" "ucast (ucast w :: u64) = w" for w :: u16
  by (auto simp: word_eq_bits bit_simps)

section \<open>Byte order\<close>

text \<open>\<open>ldl_be_p\<close> reads four bytes, most significant first; \<open>le32_bytes\<close> is what \<open>memcpy\<close> of a \<open>uint32_t\<close>
  leaves on a little-endian host.\<close>

definition ldl_be_p :: "u8 list \<Rightarrow> nat \<Rightarrow> u32" where
  "ldl_be_p b i = push_bit 24 (ucast (b ! i)) OR push_bit 16 (ucast (b ! (i + 1)))
     OR push_bit 8 (ucast (b ! (i + 2))) OR ucast (b ! (i + 3))"

definition be32_bytes :: "u32 \<Rightarrow> u8 list" where
  "be32_bytes x = [ucast (drop_bit 24 x), ucast (drop_bit 16 x), ucast (drop_bit 8 x), ucast x]"

definition le32_bytes :: "u32 \<Rightarrow> u8 list" where
  "le32_bytes x = [ucast x, ucast (drop_bit 8 x), ucast (drop_bit 16 x), ucast (drop_bit 24 x)]"

lemma ldl_be_bytes: "ldl_be_p (pre @ be32_bytes x @ post) (length pre) = x"
proof (rule bit_eqI)
  fix n :: nat
  assume "possible_bit TYPE(u32) n"
  then have "n < 32" by simp
  consider "n < 8" | "8 \<le> n" "n < 16" | "16 \<le> n" "n < 24" | "24 \<le> n" by linarith
  then show "bit (ldl_be_p (pre @ be32_bytes x @ post) (length pre)) n = bit x n"
    using \<open>n < 32\<close> by cases (auto simp: ldl_be_p_def be32_bytes_def nth_append bit_simps)
qed

section \<open>Integers\<close>

lemma int_div_lt_iff: "x div k < n \<longleftrightarrow> x < n * k" if "0 < k" for x k n :: int
proof -
  have m: "0 \<le> x mod k" "x mod k < k" using that by simp_all
  have x: "x div k * k + x mod k = x" by (rule div_mult_mod_eq)
  show ?thesis
  proof
    assume "x div k < n"
    then have "(x div k + 1) * k \<le> n * k" using that by (intro mult_right_mono) simp_all
    then show "x < n * k" using m x unfolding distrib_right by linarith
  next
    assume "x < n * k"
    then have "x div k * k < n * k" using m x by linarith
    then show "x div k < n" using that by simp
  qed
qed

lemmas int_div_lt = int_div_lt_iff [THEN iffD2]

lemma uint_minus_word_of_int:
  fixes w :: "'a::len word"
  assumes "0 \<le> r" and "r \<le> uint w"
  shows "uint (w - word_of_int r) = uint w - r"
proof -
  have "uint (w - word_of_int r) = uint (word_of_int (uint w - r) :: 'a word)" by simp
  also have "\<dots> = uint w - r"
    using assms uint_lt2p [of w] unfolding uint_word_of_int by (intro mod_pos_pos_trivial) linarith+
  finally show ?thesis .
qed

section \<open>Choosing the first minimum\<close>

text \<open>
  \<open>pick_min P pr\<close> is the body of a priority search: keep the candidate seen first among those of
  least \<open>pr\<close>. The search starts with no candidate and a bound no priority reaches.
\<close>

definition pick_min :: "(nat \<Rightarrow> bool) \<Rightarrow> (nat \<Rightarrow> nat) \<Rightarrow> nat \<Rightarrow> nat option \<times> nat \<Rightarrow> nat option \<times> nat"
where
  "pick_min P pr i b = (if P i \<and> pr i < snd b then (Some i, pr i) else b)"

definition first_min :: "(nat \<Rightarrow> bool) \<Rightarrow> (nat \<Rightarrow> nat) \<Rightarrow> nat list \<Rightarrow> nat \<Rightarrow> bool" where
  "first_min P pr xs k \<longleftrightarrow> k < length xs \<and> P (xs ! k)
     \<and> (\<forall>m < length xs. P (xs ! m) \<longrightarrow> pr (xs ! k) \<le> pr (xs ! m))
     \<and> (\<forall>m < k. P (xs ! m) \<longrightarrow> pr (xs ! k) < pr (xs ! m))"

lemma fold_pick_min:
  assumes "\<And>i. pr i < lim"
  shows "(fold (pick_min P pr) xs (None, lim) = (None, lim) \<and> (\<forall>i \<in> set xs. \<not> P i))
    \<or> (\<exists>k. first_min P pr xs k \<and> fold (pick_min P pr) xs (None, lim) = (Some (xs ! k), pr (xs ! k)))"
proof (induction xs rule: rev_induct)
  case Nil
  show ?case by simp
next
  case (snoc x xs)
  show ?case
  proof (cases "\<forall>i \<in> set xs. \<not> P i")
    case True
    then have "fold (pick_min P pr) xs (None, lim) = (None, lim)"
      using snoc.IH by (fastforce simp: first_min_def)
    then have "fold (pick_min P pr) (xs @ [x]) (None, lim) = (if P x then (Some x, pr x) else (None, lim))"
      using assms [of x] by (simp add: pick_min_def [of P pr x])
    moreover have "first_min P pr (xs @ [x]) (length xs)" if "P x"
      using True that by (auto simp: first_min_def nth_append less_Suc_eq)
    ultimately show ?thesis
      using True by (cases "P x") (auto intro!: exI [of _ "length xs"])
  next
    case False
    then obtain k where k: "first_min P pr xs k"
      and f: "fold (pick_min P pr) xs (None, lim) = (Some (xs ! k), pr (xs ! k))"
      using snoc.IH by blast
    show ?thesis
    proof (cases "P x \<and> pr x < pr (xs ! k)")
      case True
      then have "first_min P pr (xs @ [x]) (length xs)"
        using k by (fastforce simp: first_min_def nth_append less_Suc_eq)
      with True f show ?thesis
        by (auto simp: pick_min_def [of P pr x] nth_append intro!: exI [of _ "length xs"])
    next
      case False
      then have "first_min P pr (xs @ [x]) k"
        using k by (auto simp: first_min_def nth_append less_Suc_eq)
      moreover have "k < length xs" using k by (simp add: first_min_def)
      ultimately show ?thesis
        using False f by (auto simp: pick_min_def [of P pr x] nth_append intro!: exI [of _ k])
    qed
  qed
qed

section \<open>Executions of a device\<close>

text \<open>
  A device is a state, a step function over its inputs (MMIO accesses, line changes, timer
  expiries, bytes from a backend) and a guard that says which inputs its environment may give
  in which state. \<open>run\<close> plays a list of inputs and is undefined where the guard fails;
  \<open>reaches\<close> is the same as a relation.
\<close>

fun run :: "('s \<Rightarrow> 'i \<Rightarrow> bool) \<Rightarrow> ('s \<Rightarrow> 'i \<Rightarrow> 's) \<Rightarrow> 's \<Rightarrow> 'i list \<Rightarrow> 's option" where
  "run ok step s [] = Some s"
| "run ok step s (i # ins) = (if ok s i then run ok step (step s i) ins else None)"

inductive reaches :: "('s \<Rightarrow> 'i \<Rightarrow> bool) \<Rightarrow> ('s \<Rightarrow> 'i \<Rightarrow> 's) \<Rightarrow> 's \<Rightarrow> 's \<Rightarrow> bool"
  for ok :: "'s \<Rightarrow> 'i \<Rightarrow> bool" and step :: "'s \<Rightarrow> 'i \<Rightarrow> 's" and s :: 's
where
  reaches_refl: "reaches ok step s s"
| reaches_step: "reaches ok step s t \<Longrightarrow> ok t i \<Longrightarrow> reaches ok step s (step t i)"

lemma reaches_trans: "reaches ok step s t \<Longrightarrow> reaches ok step t u \<Longrightarrow> reaches ok step s u"
  by (rotate_tac, induction rule: reaches.induct) (auto intro: reaches.intros)

lemma run_reaches: "run ok step s ins = Some t \<Longrightarrow> reaches ok step s t"
proof (induction ins arbitrary: s)
  case Nil
  then show ?case by (simp add: reaches_refl)
next
  case (Cons i ins)
  then have "ok s i" and "run ok step (step s i) ins = Some t" by (auto split: if_splits)
  with Cons.IH have "reaches ok step (step s i) t" by blast
  moreover have "reaches ok step s (step s i)"
    using \<open>ok s i\<close> by (auto intro: reaches.intros)
  ultimately show ?case by (rule reaches_trans [rotated])
qed

lemma run_append: "run ok step s (xs @ ys) = Option.bind (run ok step s xs) (\<lambda>t. run ok step t ys)"
  by (induction xs arbitrary: s) auto

text \<open>
  The interface of a device model: an invariant the power-on state has and every admissible
  input keeps. Its client lemmas are the two forms in which the invariant is used.
\<close>

locale device =
  fixes ok :: "'s \<Rightarrow> 'i \<Rightarrow> bool"
    and step :: "'s \<Rightarrow> 'i \<Rightarrow> 's"
    and init :: 's
    and invar :: "'s \<Rightarrow> bool"
  assumes invar_init: "invar init"
    and invar_step: "invar s \<Longrightarrow> ok s i \<Longrightarrow> invar (step s i)"
begin

lemma invar_reaches:
  assumes "reaches ok step s t" and "invar s"
  shows "invar t"
  using assms by (induction rule: reaches.induct) (auto intro: invar_step)

lemma reachable_invar: "reaches ok step init t \<Longrightarrow> invar t"
  using invar_init by (rule invar_reaches [rotated])

lemma run_invar: "run ok step init ins = Some t \<Longrightarrow> invar t"
  by (rule reachable_invar, rule run_reaches)

end

end
