(* ===== verification/Ring.thy ===== *)
theory Ring
  imports Calypso_Prelude
begin

text \<open>
  Ring buffers. \<open>ring_list\<close> is the queue a ring holds; the locale \<open>bounded_fifo\<close> is the contract of a
  bounded queue that drops what does not fit, with the lemmas its clients use: what a burst of
  writes leaves in the queue and what a series of reads returns.
\<close>

definition ring_list :: "nat \<Rightarrow> (nat \<Rightarrow> 'a) \<Rightarrow> nat \<Rightarrow> nat \<Rightarrow> 'a list" where
  "ring_list N buf tail n = map (\<lambda>i. buf ((tail + i) mod N)) [0..<n]"

lemma length_ring_list [simp]: "length (ring_list N buf tail n) = n"
  by (simp add: ring_list_def)

lemma ring_list_0 [simp]: "ring_list N buf tail 0 = []"
  by (simp add: ring_list_def)

lemma mod_add_inj_le:
  fixes i j t N :: nat
  assumes "(t + j) mod N = (t + i) mod N" and "i \<le> j" and "j < N"
  shows "i = j"
proof -
  have "N dvd j - i" using assms mod_eq_dvd_iff_nat [of "t + i" "t + j" N] by simp
  moreover have "j - i < N" using assms by simp
  ultimately show ?thesis using assms(2) by (auto dest: dvd_imp_le)
qed

lemma mod_add_inj: "(t + i) mod N = (t + j) mod N \<Longrightarrow> i < N \<Longrightarrow> j < N \<Longrightarrow> i = j" for i j t N :: nat
  using mod_add_inj_le [of t j N i] mod_add_inj_le [of t i N j] by (cases "i \<le> j") auto

lemma ring_list_push:
  assumes "n < N"
  shows "ring_list N (buf((tail + n) mod N := x)) tail (Suc n) = ring_list N buf tail n @ [x]"
proof -
  have "(tail + i) mod N \<noteq> (tail + n) mod N" if "i < n" for i
    using mod_add_inj [of tail i N n] that assms by auto
  then show ?thesis by (auto simp: ring_list_def)
qed

lemma ring_list_pop:
  assumes "tail < N"
  shows "ring_list N buf tail (Suc n) = buf tail # ring_list N buf ((tail + 1) mod N) n"
proof -
  have "buf ((tail + Suc i) mod N) = buf (((tail + 1) mod N + i) mod N)" for i
    by (simp add: mod_simps)
  then show ?thesis
    using assms by (simp add: ring_list_def upt_conv_Cons map_Suc_upt [symmetric] del: upt_Suc)
qed

fun pops :: "('s \<Rightarrow> 'a \<times> 's) \<Rightarrow> nat \<Rightarrow> 's \<Rightarrow> 'a list" where
  "pops pop 0 s = []"
| "pops pop (Suc n) s = fst (pop s) # pops pop n (snd (pop s))"

locale bounded_fifo =
  fixes cap :: nat
    and content :: "'s \<Rightarrow> 'a list"
    and finv :: "'s \<Rightarrow> bool"
    and push :: "'s \<Rightarrow> 'a \<Rightarrow> 's"
    and pop :: "'s \<Rightarrow> 'a \<times> 's"
  assumes finv_push: "finv s \<Longrightarrow> finv (push s x)"
    and finv_pop: "finv s \<Longrightarrow> finv (snd (pop s))"
    and content_bound: "finv s \<Longrightarrow> length (content s) \<le> cap"
    and content_push: "finv s \<Longrightarrow> content (push s x) = (if length (content s) < cap then content s @ [x] else content s)"
    and content_pop: "finv s \<Longrightarrow> content (snd (pop s)) = tl (content s)"
    and value_pop: "finv s \<Longrightarrow> content s \<noteq> [] \<Longrightarrow> fst (pop s) = hd (content s)"
begin

lemma finv_push_all: "finv s \<Longrightarrow> finv (foldl push s xs)"
  by (induction xs arbitrary: s) (simp_all add: finv_push)

lemma content_push_all:
  "finv s \<Longrightarrow> content (foldl push s xs) = content s @ take (cap - length (content s)) xs"
proof (induction xs arbitrary: s)
  case (Cons x xs)
  then show ?case
    using content_bound [of s] take_Cons [of "cap - length (content s)" x xs]
    by (auto simp: content_push finv_push Suc_diff_Suc [symmetric] split: nat.splits)
qed simp

lemma content_push_fits:
  "finv s \<Longrightarrow> length (content s) + length xs \<le> cap \<Longrightarrow> content (foldl push s xs) = content s @ xs"
  by (simp add: content_push_all)

lemma pops_content: "finv s \<Longrightarrow> n \<le> length (content s) \<Longrightarrow> pops pop n s = take n (content s)"
proof (induction n arbitrary: s)
  case (Suc n)
  then have "content s \<noteq> []" by auto
  with Suc show ?case
    by (cases "content s") (simp_all add: value_pop finv_pop content_pop)
qed simp

end

end
