(* ===== verification/Sercomm.thy ===== *)
theory Sercomm
  imports Calypso_Prelude
begin

text \<open>
  The sercomm (HDLC-like) framing of the Osmocom serial protocol. Four parts of the program receive
  it with the same three-state parser: the dedicated-channel tap (\<open>calypso_dcch_tap.c\<close>), the L1CTL tap
  of the gr-gsm layer 1 (\<open>l1-grgsm/calypso_l1ctl_tap.c\<close>), the L1CTL socket server (\<open>l1ctl_sock.c\<close>)
  and the gate on the modem port (\<open>sercomm_gate.c\<close>). The locale \<open>sercomm_rx\<close> is their common
  contract; what a parser makes of a byte stream is proved once here.
\<close>

abbreviation (input) SERCOMM_FLAG :: u8 where "SERCOMM_FLAG \<equiv> 0x7E"
abbreviation (input) SERCOMM_ESCAPE :: u8 where "SERCOMM_ESCAPE \<equiv> 0x7D"
abbreviation (input) SERCOMM_ESCAPE_XOR :: u8 where "SERCOMM_ESCAPE_XOR \<equiv> 0x20"

datatype sc_state = SC_IDLE | SC_IN_FRAME | SC_ESCAPE

text \<open>Byte stuffing, as every sender of the program writes it.\<close>

definition stuff_byte :: "u8 \<Rightarrow> u8 list" where
  "stuff_byte c =
     (if c = SERCOMM_FLAG \<or> c = SERCOMM_ESCAPE then [SERCOMM_ESCAPE, c XOR SERCOMM_ESCAPE_XOR] else [c])"

definition stuff :: "u8 list \<Rightarrow> u8 list" where
  "stuff p = concat (map stuff_byte p)"

definition sercomm_frame :: "u8 list \<Rightarrow> u8 list" where
  "sercomm_frame p = [SERCOMM_FLAG] @ stuff p @ [SERCOMM_FLAG]"

lemma stuff_simps [simp]: "stuff [] = []" "stuff (c # p) = stuff_byte c @ stuff p" "stuff (p @ q) = stuff p @ stuff q"
  by (simp_all add: stuff_def)

text \<open>A stuffed payload holds no flag, so a flag always delimits frames.\<close>

lemma flag_notin_stuff: "SERCOMM_FLAG \<notin> set (stuff p)"
  by (induction p) (auto simp: stuff_byte_def)

lemma length_stuff: "length p \<le> length (stuff p)" "length (stuff p) \<le> 2 * length p"
  by (induction p) (auto simp: stuff_byte_def)

text \<open>
  The parser. \<open>put\<close> sets its state and buffer, \<open>complete\<close> is what the receiver does with a closed
  frame, \<open>idle_byte\<close> with a byte outside any frame. A frame longer than the 512 bytes of the buffer
  keeps its first 512.
\<close>

locale sercomm_rx =
  fixes rx_state :: "'s \<Rightarrow> sc_state"
    and rx_buf :: "'s \<Rightarrow> u8 list"
    and put :: "sc_state \<Rightarrow> u8 list \<Rightarrow> 's \<Rightarrow> 's"
    and complete :: "'s \<Rightarrow> 's"
    and idle_byte :: "'s \<Rightarrow> u8 \<Rightarrow> 's"
    and feed :: "'s \<Rightarrow> u8 \<Rightarrow> 's"
  assumes rx_put [simp]: "rx_state (put st buf s) = st" "rx_buf (put st buf s) = buf"
    and put_put [simp]: "put st buf (put st' buf' s) = put st buf s"
    and put_same: "put (rx_state s) (rx_buf s) s = s"
    and feed_idle: "rx_state s = SC_IDLE \<Longrightarrow>
      feed s b = (if b = SERCOMM_FLAG then put SC_IN_FRAME [] s else idle_byte s b)"
    and feed_frame: "rx_state s = SC_IN_FRAME \<Longrightarrow>
      feed s b = (if b = SERCOMM_FLAG then put SC_IN_FRAME [] (if rx_buf s \<noteq> [] then complete s else s)
        else if b = SERCOMM_ESCAPE then put SC_ESCAPE (rx_buf s) s
        else put SC_IN_FRAME (if length (rx_buf s) < 512 then rx_buf s @ [b] else rx_buf s) s)"
    and feed_escape: "rx_state s = SC_ESCAPE \<Longrightarrow>
      feed s b = put SC_IN_FRAME
        (if length (rx_buf s) < 512 then rx_buf s @ [b XOR SERCOMM_ESCAPE_XOR] else rx_buf s) s"
begin

lemma feed_stuff_byte:
  assumes "rx_state s = SC_IN_FRAME"
  shows "foldl feed s (stuff_byte c) =
    put SC_IN_FRAME (if length (rx_buf s) < 512 then rx_buf s @ [c] else rx_buf s) s"
  using assms by (auto simp: stuff_byte_def feed_frame feed_escape)

lemma feed_stuff:
  assumes "rx_state s = SC_IN_FRAME" and "length (rx_buf s) \<le> 512"
  shows "foldl feed s (stuff p) = put SC_IN_FRAME (rx_buf s @ take (512 - length (rx_buf s)) p) s"
  using assms
proof (induction p arbitrary: s)
  case Nil
  then show ?case using put_same [of s] by simp
next
  case (Cons c p)
  show ?case
  proof (cases "length (rx_buf s) < 512")
    case True
    then have "take (512 - length (rx_buf s)) (c # p) = c # take (512 - Suc (length (rx_buf s))) p"
      by (simp add: take_Cons' Suc_diff_Suc)
    then show ?thesis
      using True Cons.prems Cons.IH [of "put SC_IN_FRAME (rx_buf s @ [c]) s"] by (simp add: feed_stuff_byte)
  next
    case False
    then show ?thesis
      using Cons.prems Cons.IH [of "put SC_IN_FRAME (rx_buf s) s"] by (simp add: feed_stuff_byte)
  qed
qed

text \<open>One frame: the receiver sees exactly the payload, once.\<close>

lemma feed_one_frame:
  assumes "rx_state s = SC_IDLE \<or> rx_state s = SC_IN_FRAME \<and> rx_buf s = []" and "p \<noteq> []"
  shows "foldl feed s (sercomm_frame p) = put SC_IN_FRAME [] (complete (put SC_IN_FRAME (take 512 p) s))"
proof -
  have "feed s SERCOMM_FLAG = put SC_IN_FRAME [] s"
    using assms(1) by (auto simp: feed_idle feed_frame)
  then show ?thesis
    using assms(2) by (simp add: sercomm_frame_def feed_stuff feed_frame)
qed

text \<open>Two flags in a row bring the parser to the start of a frame, whatever it was doing.\<close>

lemma feed_resync:
  "rx_state (foldl feed s [SERCOMM_FLAG, SERCOMM_FLAG]) = SC_IN_FRAME
   \<and> rx_buf (foldl feed s [SERCOMM_FLAG, SERCOMM_FLAG]) = []"
  by (cases "rx_state s") (simp_all add: feed_idle feed_frame feed_escape)

text \<open>Back to back frames: the receiver sees each payload once and in order.\<close>

lemma feed_frames:
  assumes "rx_state s = SC_IN_FRAME" and "rx_buf s = []" and "\<forall>p \<in> set ps. p \<noteq> []"
  shows "foldl feed s (concat (map sercomm_frame ps)) =
    foldl (\<lambda>t p. put SC_IN_FRAME [] (complete (put SC_IN_FRAME (take 512 p) t))) s ps"
  using assms by (induction ps arbitrary: s) (simp_all add: feed_one_frame)

lemma rx_buf_bound:
  assumes "length (rx_buf s) \<le> 512" and "rx_state s = SC_IDLE \<Longrightarrow> rx_buf (idle_byte s b) = rx_buf s"
  shows "length (rx_buf (feed s b)) \<le> 512"
  using assms by (cases "rx_state s") (auto simp: feed_idle feed_frame feed_escape)

end

end
