(* ===== verification/Inth.thy ===== *)
theory Inth
  imports Calypso_Prelude
begin

text \<open>
  The Calypso interrupt handler, \<open>hw/intc/calypso_inth.c\<close>: 32 level or edge sources, a mask,
  a priority per source (ILR registers), one IRQ and one FIQ output to the ARM core, and a
  round-robin start that moves on at every end of interrupt.

  The two outputs are the levels last driven with \<open>qemu_irq_raise\<close> / \<open>qemu_irq_lower\<close>. The debug
  print of \<open>calypso_inth_update\<close> is not modelled. \<open>ilr\<close> is the array \<open>ilr[32]\<close>; \<open>rr_start\<close>, a C
  \<open>int\<close> only ever assigned a value \<open>% 32\<close>, is a natural number.
\<close>

section \<open>State and operations\<close>

abbreviation (input) CALYPSO_INTH_NUM_IRQS :: nat where "CALYPSO_INTH_NUM_IRQS \<equiv> 32"

record inth =
  ilr :: "u16 list"
  ith_v :: u16
  fiq_v :: u16
  levels :: u32
  imask :: u32
  rr_start :: nat
  last_num :: u16
  frame_eoi :: u64
  parent_irq :: bool
  parent_fiq :: bool

text \<open>The body of the search loop: the best IRQ and the best FIQ so far, each with its priority.\<close>

definition inth_scan_step ::
  "inth \<Rightarrow> nat \<Rightarrow> (nat option \<times> nat) \<times> (nat option \<times> nat) \<Rightarrow> (nat option \<times> nat) \<times> (nat option \<times> nat)"
where
  "inth_scan_step s j b =
     (let active = levels s AND NOT (imask s);
          i = (rr_start s + j) mod CALYPSO_INTH_NUM_IRQS
      in if \<not> bit active i then b
         else let prio = unat (ilr s ! i AND 0x1F);
                  is_fiq = bit (ilr s ! i) 8
              in if is_fiq
                 then (fst b, if prio < snd (snd b) then (Some i, prio) else snd b)
                 else (if prio < snd (fst b) then (Some i, prio) else fst b, snd b))"

definition calypso_inth_update :: "inth \<Rightarrow> inth" where
  "calypso_inth_update s =
     (let (irq, fiq) = fold (inth_scan_step s) [0..<CALYPSO_INTH_NUM_IRQS] ((None, 0x7F), (None, 0x7F));
          s1 = (case fst irq of
                  Some i \<Rightarrow> s\<lparr>ith_v := of_nat i, parent_irq := True\<rparr>
                | None \<Rightarrow> (if fst fiq = None then s\<lparr>ith_v := 0\<rparr> else s)\<lparr>parent_irq := False\<rparr>)
      in case fst fiq of
           Some i \<Rightarrow> s1\<lparr>fiq_v := of_nat i, parent_fiq := True\<rparr>
         | None \<Rightarrow> s1\<lparr>parent_fiq := False\<rparr>)"

definition calypso_inth_set_irq :: "inth \<Rightarrow> nat \<Rightarrow> bool \<Rightarrow> inth" where
  "calypso_inth_set_irq s irq level =
     calypso_inth_update
      (if level then s\<lparr>levels := set_bit irq (levels s)\<rparr>
       else if bit (ilr s ! irq) 1 \<and> (irq = 4 \<or> irq = 5 \<or> irq = 15) then s
       else s\<lparr>levels := unset_bit irq (levels s)\<rparr>)"

text \<open>Reading IRQ_NUM or FIQ_NUM acknowledges the sources 4, 5, 15 and every edge source.\<close>

definition inth_num_acks :: "inth \<Rightarrow> u16 \<Rightarrow> bool" where
  "inth_num_acks s num \<longleftrightarrow> num = 4 \<or> num = 5 \<or> num = 15 \<or> bit (ilr s ! unat num) 1"

definition calypso_inth_read :: "inth \<Rightarrow> hwaddr \<Rightarrow> u64 \<times> inth" where
  "calypso_inth_read s offset =
     (if offset = 0x00 then (ucast (levels s AND 0xFFFF), s)
      else if offset = 0x02 then (ucast (drop_bit 16 (levels s) AND 0xFFFF), s)
      else if offset = 0x08 then (ucast (imask s AND 0xFFFF), s)
      else if offset = 0x0a then (ucast (drop_bit 16 (imask s) AND 0xFFFF), s)
      else if offset = 0x10 \<or> offset = 0x80 then
        (let num = ith_v s;
             s1 = s\<lparr>last_num := num\<rparr>;
             s2 = (if inth_num_acks s1 num then s1\<lparr>levels := unset_bit (unat num) (levels s1)\<rparr> else s1)
         in (ucast num, calypso_inth_update s2))
      else if offset = 0x12 \<or> offset = 0x82 then
        (let num = fiq_v s;
             s1 = (if inth_num_acks s num then s\<lparr>levels := unset_bit (unat num) (levels s)\<rparr> else s)
         in (ucast num, calypso_inth_update s1))
      else if offset = 0x14 \<or> offset = 0x84 then (0, s)
      else if 0x20 \<le> offset \<and> offset < 0x60 then (ucast (ilr s ! ((offset - 0x20) div 2)), s)
      else (0, s))"

definition inth_write_ilr :: "inth \<Rightarrow> nat \<Rightarrow> u64 \<Rightarrow> inth" where
  "inth_write_ilr s idx value =
     (let s1 = s\<lparr>ilr := (ilr s)[idx := ucast (value AND 0x7F)]\<rparr>;
          s2 = (if idx = 7
                then s1\<lparr>ilr := (ilr s1)[7 := (ilr s1 ! 7 AND NOT 0x1F) OR (ilr s1 ! 4 AND 0x1F)]\<rparr> else s1)
      in if idx = 18
         then s2\<lparr>ilr := (ilr s2)[18 := (ilr s2 ! 18 AND NOT 0x1F) OR (ilr s2 ! 4 AND 0x1F)]\<rparr> else s2)"

text \<open>The end-of-interrupt write: the round robin restarts after the source just served.\<close>

definition inth_move_rr :: "inth \<Rightarrow> inth" where
  "inth_move_rr s =
     (if ith_v s > 0 \<or> bit (levels s) 0
      then s\<lparr>rr_start := (unat (ith_v s) + 1) mod CALYPSO_INTH_NUM_IRQS\<rparr> else s)"

definition calypso_inth_write :: "inth \<Rightarrow> hwaddr \<Rightarrow> u64 \<Rightarrow> inth" where
  "calypso_inth_write s offset value =
     (if offset = 0x00 then
        calypso_inth_update (s\<lparr>levels := levels s AND (0xFFFF0000 OR ucast (value AND 0xFFFF))\<rparr>)
      else if offset = 0x02 then
        calypso_inth_update (s\<lparr>levels := levels s AND (0x0000FFFF OR push_bit 16 (ucast (value AND 0xFFFF)))\<rparr>)
      else if offset = 0x08 then
        calypso_inth_update (s\<lparr>imask := (imask s AND 0xFFFF0000) OR ucast (value AND 0xFFFF)\<rparr>)
      else if offset = 0x0a then
        calypso_inth_update (s\<lparr>imask := (imask s AND 0x0000FFFF) OR push_bit 16 (ucast (value AND 0xFFFF))\<rparr>)
      else if offset = 0x14 \<or> offset = 0x84 then
        (let s1 = inth_move_rr s;
             s2 = (if bit value 0 \<and> last_num s1 = 4 then s1\<lparr>frame_eoi := frame_eoi s1 + 1\<rparr> else s1)
         in calypso_inth_update s2)
      else if 0x20 \<le> offset \<and> offset < 0x60 then inth_write_ilr s ((offset - 0x20) div 2) value
      else s)"

text \<open>
  The acknowledgement issued by the DSP (\<open>calypso_inth_arm_ack\<close>) and the three queries of the
  frame pacing. The first argument is the single instance \<open>g_inth\<close>, \<open>None\<close> before it is realized.
\<close>

definition calypso_inth_arm_ack :: "inth option \<Rightarrow> inth option" where
  "calypso_inth_arm_ack g =
     (case g of None \<Rightarrow> None
      | Some s \<Rightarrow>
          (let svc = ith_v s in
           if svc > 0 \<or> bit (levels s) 0
           then Some (s\<lparr>levels := unset_bit (unat svc) (levels s),
                        rr_start := (unat svc + 1) mod CALYPSO_INTH_NUM_IRQS\<rparr>)
           else Some s))"

definition calypso_inth_frame_eoi :: "inth option \<Rightarrow> u64" where
  "calypso_inth_frame_eoi g = (case g of None \<Rightarrow> 0 | Some s \<Rightarrow> frame_eoi s)"

definition calypso_inth_irq_masked :: "inth option \<Rightarrow> nat \<Rightarrow> bool" where
  "calypso_inth_irq_masked g irq = (case g of None \<Rightarrow> True | Some s \<Rightarrow> bit (imask s) irq)"

definition calypso_inth_irq_pending :: "inth option \<Rightarrow> nat \<Rightarrow> bool" where
  "calypso_inth_irq_pending g irq = (case g of None \<Rightarrow> False | Some s \<Rightarrow> bit (levels s) irq)"

text \<open>Device reset leaves the two output lines as they are: it does not call the update.\<close>

definition calypso_inth_reset :: "inth \<Rightarrow> inth" where
  "calypso_inth_reset s =
     s\<lparr>levels := 0, imask := 0, ith_v := 0, fiq_v := 0, rr_start := 0, last_num := 0, frame_eoi := 0,
       ilr := replicate CALYPSO_INTH_NUM_IRQS 0\<rparr>"

definition inth_init :: inth where
  "inth_init = calypso_inth_reset
     \<lparr>ilr = replicate CALYPSO_INTH_NUM_IRQS 0, ith_v = 0, fiq_v = 0, levels = 0, imask = 0, rr_start = 0,
      last_num = 0, frame_eoi = 0, parent_irq = False, parent_fiq = False\<rparr>"

lemmas inth_defs [device_defs] =
  calypso_inth_set_irq_def calypso_inth_read_def calypso_inth_write_def inth_write_ilr_def
  inth_move_rr_def calypso_inth_arm_ack_def calypso_inth_reset_def inth_num_acks_def

text \<open>The inputs of the device; the guard is the number of input lines \<open>qdev_init_gpio_in\<close> creates.\<close>

datatype inth_in =
    InthLine nat bool
  | InthRead hwaddr
  | InthWrite hwaddr u64
  | InthArmAck
  | InthReset

fun inth_step :: "inth \<Rightarrow> inth_in \<Rightarrow> inth" where
  "inth_step s (InthLine irq level) = calypso_inth_set_irq s irq level"
| "inth_step s (InthRead offset) = snd (calypso_inth_read s offset)"
| "inth_step s (InthWrite offset value) = calypso_inth_write s offset value"
| "inth_step s InthArmAck = the (calypso_inth_arm_ack (Some s))"
| "inth_step s InthReset = calypso_inth_reset s"

fun inth_ok :: "inth \<Rightarrow> inth_in \<Rightarrow> bool" where
  "inth_ok s (InthLine irq level) \<longleftrightarrow> irq < CALYPSO_INTH_NUM_IRQS"
| "inth_ok s _ \<longleftrightarrow> True"

section \<open>The arbitration, as the hardware manual states it\<close>

text \<open>
  A source is pending when its line is latched and not masked. Among the pending sources the
  winner has the least priority value, and among equals it comes first counting upwards from
  the round-robin start.
\<close>

definition inth_pending :: "inth \<Rightarrow> nat \<Rightarrow> bool" where
  "inth_pending s i \<longleftrightarrow> i < CALYPSO_INTH_NUM_IRQS \<and> bit (levels s) i \<and> \<not> bit (imask s) i"

definition inth_prio :: "inth \<Rightarrow> nat \<Rightarrow> nat" where
  "inth_prio s i = unat (ilr s ! i AND 0x1F)"

definition inth_dist :: "inth \<Rightarrow> nat \<Rightarrow> nat" where
  "inth_dist s i = (i + CALYPSO_INTH_NUM_IRQS - rr_start s) mod CALYPSO_INTH_NUM_IRQS"

definition inth_winner :: "inth \<Rightarrow> nat \<Rightarrow> bool" where
  "inth_winner s i \<longleftrightarrow> inth_pending s i \<and>
     (\<forall>j. inth_pending s j \<longrightarrow>
        inth_prio s i < inth_prio s j \<or> inth_prio s i = inth_prio s j \<and> inth_dist s i \<le> inth_dist s j)"

definition inth_inv :: "inth \<Rightarrow> bool" where
  "inth_inv s \<longleftrightarrow> length (ilr s) = CALYPSO_INTH_NUM_IRQS \<and> (\<forall>x \<in> set (ilr s). unat x < 128)
     \<and> rr_start s < CALYPSO_INTH_NUM_IRQS \<and> unat (ith_v s) < CALYPSO_INTH_NUM_IRQS
     \<and> fiq_v s = 0 \<and> \<not> parent_fiq s \<and> unat (last_num s) < CALYPSO_INTH_NUM_IRQS"

section \<open>The search loop finds the winner\<close>

lemma inth_rot_dist:
  assumes "rr < 32" and "k < 32"
  shows "((rr + k) mod 32 + 32 - rr) mod 32 = (k::nat)"
proof (cases "rr + k < 32")
  case True
  then show ?thesis using assms by simp
next
  case False
  then have "(rr + k) mod 32 = rr + k - 32" using assms by (simp add: mod_if)
  then show ?thesis using assms False by simp
qed

lemma inth_dist_rot:
  assumes "rr < 32" and "i < 32"
  shows "(rr + (i + 32 - rr) mod 32) mod 32 = (i::nat)"
proof (cases "rr \<le> i")
  case True
  then have "(i + 32 - rr) mod 32 = i - rr" using assms by (simp add: mod_if)
  then show ?thesis using assms True by simp
next
  case False
  then have "(i + 32 - rr) mod 32 = i + 32 - rr" using assms by simp
  then show ?thesis using assms False by simp
qed
lemma inth_dist_last:
  assumes "i < 32" and "j < 32" and "j \<noteq> i"
  shows "(j + 32 - (i + 1) mod 32) mod 32 < (i + 32 - (i + 1) mod 32) mod (32::nat)"
proof (cases "i = 31")
  case True
  with assms show ?thesis by simp
next
  case False
  then have i: "(i + 1) mod 32 = i + 1" using assms(1) by simp
  have "(i + 32 - (i + 1)) mod 32 = (31::nat)" by simp
  moreover have "(j + 32 - (i + 1)) mod 32 < (31::nat)"
  proof (cases "j < i")
    case True
    then show ?thesis using assms by simp
  next
    case False
    then have "j + 32 - (i + 1) = (j - i - 1) + 32" using assms by simp
    then have "(j + 32 - (i + 1)) mod 32 = (j - i - 1) mod 32" by (metis mod_add_self2)
    then show ?thesis using assms False by simp
  qed
  ultimately show ?thesis using i by simp
qed

definition inth_order :: "inth \<Rightarrow> nat list" where
  "inth_order s = map (\<lambda>j. (rr_start s + j) mod 32) [0..<32]"

lemma length_inth_order [simp]: "length (inth_order s) = 32"
  by (simp add: inth_order_def del: upt_Suc)

lemma nth_inth_order [simp]: "k < 32 \<Longrightarrow> inth_order s ! k = (rr_start s + k) mod 32"
  unfolding inth_order_def by (subst nth_map) (simp_all only: length_upt nth_upt diff_zero add_0)

lemma inth_prio_bound: "inth_prio s i < 0x7F"
proof -
  have "inth_prio s i < 2 ^ 5"
    unfolding inth_prio_def mask_take_bit by (rule unat_take_bit_lt)
  then show ?thesis by simp
qed

lemma inth_no_fiq: "inth_inv s \<Longrightarrow> i < CALYPSO_INTH_NUM_IRQS \<Longrightarrow> \<not> bit (ilr s ! i) 8"
  by (rule bit_above_lt [of _ 7]) (auto simp: inth_inv_def)

lemma inth_scan_fold:
  assumes "inth_inv s"
  shows "fold (inth_scan_step s) js (b, f)
    = (fold (pick_min (inth_pending s) (inth_prio s)) (map (\<lambda>j. (rr_start s + j) mod 32) js) b, f)"
proof (induction js arbitrary: b)
  case Nil
  show ?case by simp
next
  case (Cons j js)
  have "\<not> bit (ilr s ! ((rr_start s + j) mod 32)) 8"
    using assms by (rule inth_no_fiq) simp
  then have "inth_scan_step s j (b, f)
      = (pick_min (inth_pending s) (inth_prio s) ((rr_start s + j) mod 32) b, f)"
    by (auto simp: inth_scan_step_def pick_min_def inth_pending_def inth_prio_def bit_simps Let_def)
  then show ?case by (simp add: Cons.IH)
qed

lemma inth_first_min_winner:
  assumes inv: "inth_inv s"
    and min: "first_min (inth_pending s) (inth_prio s) (inth_order s) k"
  shows "inth_winner s ((rr_start s + k) mod 32)"
proof -
  have rr: "rr_start s < 32" using inv by (simp add: inth_inv_def)
  have k: "k < 32" using min by (simp add: first_min_def)
  have dist: "inth_dist s ((rr_start s + m) mod 32) = m" if "m < 32" for m
    using rr that by (simp add: inth_dist_def inth_rot_dist)
  have "inth_prio s ((rr_start s + k) mod 32) < inth_prio s j
      \<or> inth_prio s ((rr_start s + k) mod 32) = inth_prio s j \<and> k \<le> inth_dist s j"
    if j: "inth_pending s j" for j
  proof -
    define m where "m = inth_dist s j"
    have m: "m < 32" by (simp add: m_def inth_dist_def)
    have j': "(rr_start s + m) mod 32 = j"
      using rr j by (simp add: m_def inth_dist_def inth_dist_rot inth_pending_def)
    with min m j have le: "inth_prio s ((rr_start s + k) mod 32) \<le> inth_prio s j"
      by (auto simp: first_min_def)
    have "inth_prio s ((rr_start s + k) mod 32) < inth_prio s j" if "m < k"
      using min m j j' k that by (auto simp: first_min_def)
    with le show ?thesis by (fastforce simp: m_def)
  qed
  with min k show ?thesis by (auto simp: inth_winner_def first_min_def dist)
qed

lemma inth_winner_unique:
  assumes "inth_inv s" and "inth_winner s i" and "inth_winner s j"
  shows "i = j"
proof -
  from assms(2,3) have eq: "inth_dist s i = inth_dist s j" and "i < 32" "j < 32"
    by (fastforce simp: inth_winner_def inth_pending_def)+
  moreover have rr: "rr_start s < 32" using assms(1) by (simp add: inth_inv_def)
  ultimately show ?thesis
    using inth_dist_rot [OF rr] unfolding inth_dist_def by metis
qed

lemma inth_update_cases:
  assumes "inth_inv s"
  obtains (idle) "\<forall>i. \<not> inth_pending s i"
      "calypso_inth_update s = s\<lparr>ith_v := 0, parent_irq := False, parent_fiq := False\<rparr>"
    | (serve) i where "inth_winner s i" "i < 32"
      "calypso_inth_update s = s\<lparr>ith_v := of_nat i, parent_irq := True, parent_fiq := False\<rparr>"
proof -
  define r where "r = fold (pick_min (inth_pending s) (inth_prio s)) (inth_order s) (None, 0x7F)"
  have scan: "fold (inth_scan_step s) [0..<32] ((None, 0x7F), (None, 0x7F)) = (r, (None, 0x7F))"
    unfolding r_def inth_order_def by (rule inth_scan_fold [OF assms])
  have rr: "rr_start s < 32" using assms by (simp add: inth_inv_def)
  have all: "i \<in> set (inth_order s)" if "i < 32" for i
    using nth_mem [of "(i + 32 - rr_start s) mod 32" "inth_order s"] inth_dist_rot [OF rr that] by simp
  consider "r = (None, 0x7F)" "\<forall>i \<in> set (inth_order s). \<not> inth_pending s i"
    | k where "first_min (inth_pending s) (inth_prio s) (inth_order s) k" "r = (Some (inth_order s ! k), inth_prio s (inth_order s ! k))"
    using fold_pick_min [of "inth_prio s" "0x7F" "inth_pending s" "inth_order s", OF inth_prio_bound]
    by (auto simp: r_def)
  then show thesis
  proof cases
    case 1
    with all have "\<forall>i. \<not> inth_pending s i" by (auto simp: inth_pending_def)
    moreover have "calypso_inth_update s = s\<lparr>ith_v := 0, parent_irq := False, parent_fiq := False\<rparr>"
      unfolding calypso_inth_update_def scan 1(1) by simp
    ultimately show ?thesis by (rule idle)
  next
    case (2 k)
    have xk: "inth_order s ! k = (rr_start s + k) mod 32"
      using 2(1) by (simp add: first_min_def)
    have "inth_winner s (inth_order s ! k)"
      using inth_first_min_winner [OF assms 2(1)] xk by simp
    moreover have "calypso_inth_update s
        = s\<lparr>ith_v := of_nat (inth_order s ! k), parent_irq := True, parent_fiq := False\<rparr>"
      unfolding calypso_inth_update_def scan 2(2) by simp
    ultimately show ?thesis by (auto simp: xk intro: serve)
  qed
qed

section \<open>Every operation keeps the invariant\<close>

lemma inth_update_inv [inv_intros]:
  assumes "inth_inv s"
  shows "inth_inv (calypso_inth_update s)"
  using assms by (rule inth_update_cases) (use assms in \<open>auto simp: inth_inv_def unat_of_nat_u16\<close>)

lemma inth_update_fields [simp]:
  assumes "inth_inv s"
  shows "levels (calypso_inth_update s) = levels s" and "ilr (calypso_inth_update s) = ilr s"
    and "imask (calypso_inth_update s) = imask s" and "rr_start (calypso_inth_update s) = rr_start s"
  by (rule inth_update_cases [OF assms]; simp)+

lemma inth_inv_frame [simp]:
  "inth_inv (s\<lparr>levels := l\<rparr>) = inth_inv s" "inth_inv (s\<lparr>imask := m\<rparr>) = inth_inv s"
  "inth_inv (s\<lparr>frame_eoi := e\<rparr>) = inth_inv s"
  by (simp_all add: inth_inv_def)

lemma inth_set_irq_inv [inv_intros]: "inth_inv s \<Longrightarrow> inth_inv (calypso_inth_set_irq s irq level)"
  by (simp add: calypso_inth_set_irq_def inth_update_inv)

lemma inth_read_inv [inv_intros]:
  assumes "inth_inv s"
  shows "inth_inv (snd (calypso_inth_read s offset))"
proof -
  have "inth_inv (s\<lparr>last_num := ith_v s\<rparr>)" using assms by (simp add: inth_inv_def)
  with assms show ?thesis by (simp add: calypso_inth_read_def Let_def inth_update_inv)
qed

lemma inth_ilr_value: "unat (ucast (value AND 0x7F) :: u16) < 128"
proof -
  have "unat (ucast (value AND 0x7F) :: u16) < 2 ^ 7"
    unfolding mask_take_bit unat_lt_bits by (simp add: bit_simps)
  then show ?thesis by simp
qed

lemma inth_ilr_merge:
  assumes "unat x < 128" and "unat y < 128"
  shows "unat ((x AND NOT 0x1F) OR (y AND 0x1F) :: u16) < 128"
proof -
  have "\<not> bit x m \<and> \<not> bit y m" if "7 \<le> m" for m
    using assms that by (auto dest: bit_above_lt [rotated, of 7])
  then have "unat ((x AND NOT 0x1F) OR (y AND 0x1F) :: u16) < 2 ^ 7"
    unfolding unat_lt_bits by (simp add: bit_simps)
  then show ?thesis by simp
qed

lemma inth_ilr_update_inv:
  assumes "inth_inv s" and "unat v < 128"
  shows "inth_inv (s\<lparr>ilr := (ilr s)[idx := v]\<rparr>)"
  using assms set_update_subset_insert [of "ilr s" idx v] by (auto simp: inth_inv_def)

lemma inth_ilr_nth: "inth_inv s \<Longrightarrow> i < 32 \<Longrightarrow> unat (ilr s ! i) < 128"
  by (simp add: inth_inv_def)

lemma inth_write_ilr_inv [inv_intros]:
  assumes "inth_inv s"
  shows "inth_inv (inth_write_ilr s idx value)"
proof -
  define s1 where "s1 = s\<lparr>ilr := (ilr s)[idx := ucast (value AND 0x7F)]\<rparr>"
  have 1: "inth_inv s1" unfolding s1_def by (intro inth_ilr_update_inv assms inth_ilr_value)
  define m where "m k s = s\<lparr>ilr := (ilr s)[k := (ilr s ! k AND NOT 0x1F) OR (ilr s ! 4 AND 0x1F)]\<rparr>"
    for k and s :: inth
  have 2: "inth_inv (m k t)" if "inth_inv t" "k < 32" for k t
    unfolding m_def by (intro inth_ilr_update_inv inth_ilr_merge inth_ilr_nth that) simp
  have "inth_write_ilr s idx value
      = (if idx = 18 then m 18 (if idx = 7 then m 7 s1 else s1) else if idx = 7 then m 7 s1 else s1)"
    by (simp add: inth_write_ilr_def Let_def m_def s1_def)
  with 1 2 show ?thesis by simp
qed

lemma inth_move_rr_inv [inv_intros]: "inth_inv s \<Longrightarrow> inth_inv (inth_move_rr s)"
  by (auto simp: inth_inv_def inth_move_rr_def)

lemma inth_move_rr_fields [simp]:
  "levels (inth_move_rr s) = levels s" "ilr (inth_move_rr s) = ilr s"
  by (simp_all add: inth_move_rr_def)

lemma inth_write_inv [inv_intros]: "inth_inv s \<Longrightarrow> inth_inv (calypso_inth_write s offset value)"
  by (simp add: calypso_inth_write_def Let_def inv_intros)

lemma inth_arm_ack_inv: "inth_inv s \<Longrightarrow> inth_inv (the (calypso_inth_arm_ack (Some s)))"
  by (auto simp: calypso_inth_arm_ack_def inth_inv_def Let_def)

lemma inth_reset_inv [inv_intros]: "inth_inv s \<Longrightarrow> inth_inv (calypso_inth_reset s)"
  by (simp add: calypso_inth_reset_def inth_inv_def)

interpretation inth_dev: device inth_ok inth_step inth_init inth_inv
proof
  show "inth_inv inth_init"
    by (simp add: inth_inv_def inth_init_def calypso_inth_reset_def)
  fix s i
  assume "inth_inv s" "inth_ok s i"
  then show "inth_inv (inth_step s i)"
    by (cases i) (simp_all add: inth_arm_ack_inv inv_intros)
qed

section \<open>Properties\<close>

text \<open>Helper facts about one interrupt.\<close>

lemma inth_ith_v_winner:
  assumes "inth_inv s" and "inth_winner s i"
  shows "parent_irq (calypso_inth_update s) \<and> unat (ith_v (calypso_inth_update s)) = i"
proof (rule inth_update_cases [OF assms(1)])
  assume "\<forall>i. \<not> inth_pending s i"
  with assms(2) show ?thesis by (simp add: inth_winner_def)
next
  fix j
  assume j: "inth_winner s j" "j < 32"
    and u: "calypso_inth_update s = s\<lparr>ith_v := of_nat j, parent_irq := True, parent_fiq := False\<rparr>"
  have "i = j" using assms j(1) by (rule inth_winner_unique)
  with j u show ?thesis by (simp add: unat_of_nat_u16)
qed

lemma inth_winner_exists:
  assumes "inth_inv s" and "inth_pending s i"
  obtains w where "inth_winner s w"
  using assms(1) by (rule inth_update_cases) (use assms(2) that in auto)

text \<open>C5. Arbitration: in every state reachable from reset, the update raises the IRQ output exactly
  when a latched unmasked source exists, and IRQ_NUM is then the one source that wins by priority
  and, among equal priorities, by distance from the round-robin start; with no pending source
  IRQ_NUM is 0.\<close>

theorem inth_arbitration:
  assumes "reaches inth_ok inth_step inth_init s"
  shows "(if \<exists>i. inth_pending s i
          then parent_irq (calypso_inth_update s)
            \<and> (\<forall>i. inth_winner s i = (i = unat (ith_v (calypso_inth_update s))))
          else \<not> parent_irq (calypso_inth_update s) \<and> ith_v (calypso_inth_update s) = 0)"
proof -
  have inv: "inth_inv s" using assms by (rule inth_dev.reachable_invar)
  show ?thesis
  proof (cases "\<exists>i. inth_pending s i")
    case True
    then obtain w where w: "inth_winner s w" using inth_winner_exists [OF inv] by blast
    then have "inth_winner s i = (i = w)" for i
      using inth_winner_unique [OF inv] by blast
    with True inth_ith_v_winner [OF inv w] show ?thesis by simp
  next
    case False
    then have none: "\<not> inth_winner s i" for i by (simp add: inth_winner_def)
    show ?thesis
      using inv by (rule inth_update_cases) (use False none in simp_all)
  qed
qed

text \<open>An end of interrupt never presents the source presented before it while another one is as urgent.\<close>

lemma inth_move_rr_fair:
  assumes "reaches inth_ok inth_step inth_init s"
    and "inth_pending s j" and "j \<noteq> unat (ith_v s)"
    and "inth_prio s j \<le> inth_prio s (unat (ith_v s))"
  shows "parent_irq (calypso_inth_write s 0x14 v) \<and> ith_v (calypso_inth_write s 0x14 v) \<noteq> ith_v s"
proof -
  define i where "i = unat (ith_v s)"
  define t where "t = (if bit v 0 \<and> last_num (inth_move_rr s) = 4
    then (inth_move_rr s)\<lparr>frame_eoi := frame_eoi (inth_move_rr s) + 1\<rparr> else inth_move_rr s)"
  have inv: "inth_inv s" using assms(1) by (rule inth_dev.reachable_invar)
  then have i: "i < 32" by (simp add: i_def inth_inv_def)
  have w: "calypso_inth_write s 0x14 v = calypso_inth_update t"
    by (simp add: calypso_inth_write_def Let_def t_def)
  have invt: "inth_inv t" using inv by (simp add: t_def inth_move_rr_inv)
  have same: "inth_pending t = inth_pending s" "inth_prio t = inth_prio s"
    by (simp_all add: fun_eq_iff t_def inth_move_rr_def inth_pending_def inth_prio_def)
  obtain k where k: "inth_winner t k" using inth_winner_exists [OF invt] assms(2) same by metis
  have "k \<noteq> i"
  proof
    assume "k = i"
    then have "inth_pending s i" using k same by (simp add: inth_winner_def)
    then have "bit (levels s) i" by (simp add: inth_pending_def)
    then have "ith_v s > 0 \<or> bit (levels s) 0"
      by (cases "ith_v s = 0") (auto simp: i_def word_neq_0_conv)
    then have "rr_start t = (i + 1) mod 32" by (simp add: t_def inth_move_rr_def i_def)
    then have "inth_dist t j < inth_dist t i"
      using inth_dist_last [of i j] i assms(2,3) by (simp add: inth_dist_def inth_pending_def i_def)
    moreover have "inth_prio t i < inth_prio t j \<or> inth_prio t i = inth_prio t j \<and> inth_dist t i \<le> inth_dist t j"
      using k \<open>k = i\<close> assms(2) same by (simp add: inth_winner_def)
    ultimately show False using assms(4) same by (simp add: i_def)
  qed
  with inth_ith_v_winner [OF invt k] w show ?thesis by (auto simp: i_def)
qed

text \<open>C18. Fairness: when the source the processor read from IRQ_NUM is still the one the controller presents at the
  end-of-interrupt write, that write raises the line for another source whenever another pending one has the same or a
  more urgent priority. A source whose read clears its request may be replaced before the write, and then the search
  moves past the replacement instead.\<close>

theorem inth_round_robin:
  assumes "reaches inth_ok inth_step inth_init s" and "reaches inth_ok inth_step (snd (calypso_inth_read s 0x10)) t"
    and "ith_v t = ith_v s" and "inth_pending t j" and "j \<noteq> unat (ith_v s)"
    and "inth_prio t j \<le> inth_prio t (unat (ith_v s))"
  shows "fst (calypso_inth_read s 0x10) = ucast (ith_v s)
    \<and> parent_irq (calypso_inth_write t 0x14 v) \<and> ith_v (calypso_inth_write t 0x14 v) \<noteq> ith_v s"
proof -
  have "reaches inth_ok inth_step s (snd (calypso_inth_read s 0x10))"
    using reaches_step [OF reaches_refl, of inth_ok s "InthRead 0x10" inth_step] by simp
  then have "reaches inth_ok inth_step inth_init t" using assms(1,2) by (blast intro: reaches_trans)
  moreover have "fst (calypso_inth_read s 0x10) = ucast (ith_v s)" by (simp add: calypso_inth_read_def Let_def)
  ultimately show ?thesis using inth_move_rr_fair [of t j v] assms(3-6) by simp
qed

text \<open>A concrete reachable state for the witnesses: sources 2 and 7 raised after reset.\<close>

definition inth_two_raised :: inth where
  "inth_two_raised = foldl inth_step inth_init [InthLine 2 True, InthLine 7 True]"

lemma inth_two_raised_reachable: "reaches inth_ok inth_step inth_init inth_two_raised"
  by (rule run_reaches [of _ _ _ "[InthLine 2 True, InthLine 7 True]"])
    (simp add: inth_two_raised_def)

theorem inth_arbitration_witness:
  "inth_pending inth_two_raised 2 \<and> parent_irq (calypso_inth_update inth_two_raised)
   \<and> inth_winner inth_two_raised (unat (ith_v (calypso_inth_update inth_two_raised)))"
proof -
  have "inth_pending inth_two_raised 2" by code_simp
  then show ?thesis using inth_arbitration [OF inth_two_raised_reachable] by (auto split: if_splits)
qed

theorem inth_round_robin_witness:
  "let t = snd (calypso_inth_read inth_two_raised 0x10)
   in fst (calypso_inth_read inth_two_raised 0x10) = 2 \<and> inth_pending t 7
      \<and> parent_irq (calypso_inth_write t 0x14 1) \<and> ith_v (calypso_inth_write t 0x14 1) \<noteq> 2"
proof -
  let ?t = "snd (calypso_inth_read inth_two_raised 0x10)"
  have "inth_pending ?t 7" and "ith_v inth_two_raised = 2" and "ith_v ?t = 2" and "inth_prio ?t 7 \<le> inth_prio ?t 2"
    by code_simp+
  then show ?thesis
    using inth_round_robin [OF inth_two_raised_reachable reaches_refl, of 7 1] by (simp add: Let_def)
qed

text \<open>Sources 9 and 10 edge triggered with the same priority. The read of source 10 clears it; both are raised again
  before the end of interrupt, source 9 is presented, and the search moves past 9 and not past 10: the processor is
  handed source 10 again before 9 was served.\<close>

definition inth_edge :: "u16 \<Rightarrow> u32 \<Rightarrow> u16 \<Rightarrow> inth" where
  "inth_edge v l n = \<lparr>ilr = (replicate 32 0)[9 := 2, 10 := 2], ith_v = v, fiq_v = 0, levels = l, imask = 0, rr_start = 0,
     last_num = n, frame_eoi = 0, parent_irq = (l \<noteq> 0), parent_fiq = False\<rparr>"

lemma inth_edge_steps:
  "foldl inth_step inth_init [InthWrite 0x32 2, InthWrite 0x34 2] = inth_edge 0 0 0"
  "inth_step (inth_edge 0 0 0) (InthLine 10 True) = inth_edge 10 0x400 0"
  "calypso_inth_read (inth_edge 10 0x400 0) 0x10 = (10, inth_edge 0 0 10)"
  "inth_step (inth_edge 0 0 10) (InthLine 9 True) = inth_edge 9 0x200 10"
  "inth_step (inth_edge 9 0x200 10) (InthLine 10 True) = inth_edge 9 0x600 10"
  "ith_v (calypso_inth_write (inth_edge 9 0x600 10) 0x14 1) = 10"
  by code_simp+

lemma inth_edge_served_twice:
  "let s = foldl inth_step inth_init [InthWrite 0x32 2, InthWrite 0x34 2, InthLine 10 True];
       t = foldl inth_step s [InthRead 0x10, InthLine 9 True, InthLine 10 True]
   in fst (calypso_inth_read s 0x10) = 10 \<and> inth_pending t 9 \<and> inth_prio t 9 = inth_prio t 10
      \<and> ith_v (calypso_inth_write t 0x14 1) = 10"
proof -
  have "foldl inth_step inth_init [InthWrite 0x32 2, InthWrite 0x34 2, InthLine 10 True] = inth_edge 10 0x400 0"
    using inth_edge_steps(1,2) by simp
  moreover have "foldl inth_step (inth_edge 10 0x400 0) [InthRead 0x10, InthLine 9 True, InthLine 10 True] = inth_edge 9 0x600 10"
    using inth_edge_steps(3-5) by simp
  moreover have "inth_pending (inth_edge 9 0x600 10) 9" "inth_prio (inth_edge 9 0x600 10) 9 = inth_prio (inth_edge 9 0x600 10) 10"
    by code_simp+
  ultimately show ?thesis using inth_edge_steps(3,6) by (simp only: Let_def fst_conv)
qed

text \<open>C30. No FIQ: in every reachable state the FIQ output is low and FIQ_NUM is 0, whatever the
  guest writes to the ILR registers. The write keeps seven bits of an ILR, and the update reads
  the FIQ routing from bit 8, so the routing can never be set.\<close>

theorem inth_fiq_never_raised:
  assumes "reaches inth_ok inth_step inth_init s"
  shows "\<not> parent_fiq s \<and> fiq_v s = 0 \<and> \<not> parent_fiq (calypso_inth_update s)"
proof -
  have inv: "inth_inv s" using assms by (rule inth_dev.reachable_invar)
  with inth_update_inv [OF inv] show ?thesis by (simp add: inth_inv_def)
qed

theorem inth_fiq_never_raised_witness:
  "\<not> parent_fiq (calypso_inth_update (inth_step inth_two_raised (InthWrite 0x24 0x1FF)))"
  using inth_fiq_never_raised [OF reaches_step [OF inth_two_raised_reachable, of "InthWrite 0x24 0x1FF"]]
  by simp

text \<open>
  Inputs that leave the latched frame interrupt alone: every line change, reads of other
  registers than the two NUM registers, writes of other registers than the low half of IT_REG
  and ILR 4.
\<close>

fun inth_leaves_frame :: "inth_in \<Rightarrow> bool" where
  "inth_leaves_frame (InthLine irq level) \<longleftrightarrow> irq < CALYPSO_INTH_NUM_IRQS"
| "inth_leaves_frame (InthRead offset) \<longleftrightarrow> offset \<notin> {0x10, 0x80, 0x12, 0x82}"
| "inth_leaves_frame (InthWrite offset value) \<longleftrightarrow> offset \<notin> {0x00, 0x28, 0x29}"
| "inth_leaves_frame _ \<longleftrightarrow> False"

definition inth_frame_latched :: "inth \<Rightarrow> bool" where
  "inth_frame_latched s \<longleftrightarrow> inth_inv s \<and> bit (levels s) 4 \<and> bit (ilr s ! 4) 1"

lemma inth_frame_latched_step:
  assumes "inth_frame_latched s" and "inth_leaves_frame i"
  shows "inth_frame_latched (inth_step s i)"
proof (cases i)
  case (InthLine irq level)
  with assms show ?thesis
    by (auto simp: inth_frame_latched_def calypso_inth_set_irq_def inth_update_inv bit_simps)
next
  case (InthRead offset)
  with assms show ?thesis by (auto simp: calypso_inth_read_def)
next
  case (InthWrite offset v)
  have inv: "inth_inv s" and 4: "bit (levels s) 4" "bit (ilr s ! 4) 1" and len: "length (ilr s) = 32"
    using assms(1) by (auto simp: inth_frame_latched_def inth_inv_def)
  have idx: "(offset - 0x20) div 2 \<noteq> 4" if "0x20 \<le> offset"
    using assms(2) InthWrite that by auto
  have "bit (levels (calypso_inth_write s offset v)) 4
      \<and> bit (ilr (calypso_inth_write s offset v) ! 4) 1"
    using InthWrite assms(2) inv 4 len idx
    by (auto simp: calypso_inth_write_def inth_write_ilr_def inth_move_rr_inv Let_def bit_simps
        nth_list_update)
  with inv InthWrite show ?thesis by (simp add: inth_frame_latched_def inth_write_inv)
qed (use assms in simp_all)

text \<open>C19. The TPU frame interrupt is not lost: once source 4, configured edge sensitive, has been
  raised, it stays latched through every sequence of line changes (its own pulse falling
  included) and register accesses until IRQ_NUM is read, IT_REG is written or ILR 4 is
  reconfigured.\<close>

theorem inth_frame_irq_not_lost:
  assumes "reaches inth_ok inth_step inth_init s" and "bit (ilr s ! 4) 1"
    and "\<forall>i \<in> set ins. inth_leaves_frame i"
  shows "bit (levels (foldl inth_step (calypso_inth_set_irq s 4 True) ins)) 4"
proof -
  have inv: "inth_inv s" using assms(1) by (rule inth_dev.reachable_invar)
  then have "inth_frame_latched (calypso_inth_set_irq s 4 True)"
    using assms(2) by (simp add: inth_frame_latched_def calypso_inth_set_irq_def inth_update_inv bit_simps)
  then have "inth_frame_latched (foldl inth_step (calypso_inth_set_irq s 4 True) ins)"
    using assms(3) by (induction ins rule: rev_induct) (simp_all add: inth_frame_latched_step)
  then show ?thesis by (simp add: inth_frame_latched_def)
qed

theorem inth_frame_irq_not_lost_witness:
  "bit (levels (foldl inth_step (calypso_inth_set_irq (inth_step inth_init (InthWrite 0x28 2)) 4 True)
     [InthLine 4 False, InthLine 7 True, InthWrite 0x14 1])) 4"
proof -
  have r: "reaches inth_ok inth_step inth_init (inth_step inth_init (InthWrite 0x28 2))"
    by (rule reaches_step [OF reaches_refl]) simp
  have "bit (ilr (inth_step inth_init (InthWrite 0x28 2)) ! 4) 1" by code_simp
  then show ?thesis by (rule inth_frame_irq_not_lost [OF r]) simp
qed

text \<open>Writing ILR 7 or ILR 18 (the two UARTs) makes the source inherit the edge flag of the frame
  interrupt: the five bits copied from ILR 4 as its priority include bit 1, the flag that decides
  whether reading IRQ_NUM acknowledges the source.\<close>

lemma inth_uart_ilr_inherits_edge:
  assumes "reaches inth_ok inth_step inth_init s" and "k = 7 \<or> k = 18"
  shows "bit (ilr (calypso_inth_write s (0x20 + 2 * k) v) ! k) 1 = bit (ilr s ! 4) 1"
proof -
  have "length (ilr s) = 32"
    using inth_dev.reachable_invar [OF assms(1)] by (simp add: inth_inv_def)
  with assms(2) show ?thesis
    by (auto simp: calypso_inth_write_def inth_write_ilr_def Let_def bit_simps)
qed

end
