(* ===== verification/Timer.thy ===== *)
theory Timer
  imports Calypso_Prelude
begin

text \<open>
  The Calypso general purpose timer, \<open>hw/timer/calypso_timer.c\<close>: a 16-bit down counter clocked
  by 13 MHz / (32 \<open><<\<close> prescaler), one shot or reloading, whose value is computed from the host clock
  when it is read, and the counter of the lost-frame detection, which is read from a latch.

  The \<open>QEMUTimer\<close> is its deadline (\<open>timer_mod\<close> sets it, \<open>timer_del\<close> and the expiry clear it). An
  operation that reads the clock gets the successive readings as \<open>clk 0\<close>, \<open>clk 1\<close>, ...; they and the
  \<open>int64_t\<close> values computed from them are integers. \<open>g_lost\<close> says that \<open>g_lost_timer\<close> is this
  instance. The interrupt output is the level last driven: nothing in the source lowers it.
\<close>

section \<open>State and operations\<close>

record timer =
  load :: u16
  count :: u16
  ctrl :: u16
  prescaler :: u16
  tick_ns :: int
  epoch_ns :: int
  running :: bool
  lost_latch_active :: bool
  lost_latch_count :: u16
  lost_read_phase :: u32
  deadline :: "int option"
  tirq :: bool
  g_lost :: bool

abbreviation (input) TIMER_CTRL_START :: nat where "TIMER_CTRL_START \<equiv> 0"
abbreviation (input) TIMER_CTRL_RELOAD :: nat where "TIMER_CTRL_RELOAD \<equiv> 1"
abbreviation (input) TIMER_CTRL_PRESCALER_SH :: nat where "TIMER_CTRL_PRESCALER_SH \<equiv> 2"
abbreviation (input) TIMER_CTRL_PRESCALER_MSK :: u16 where "TIMER_CTRL_PRESCALER_MSK \<equiv> 0x1C"
abbreviation (input) TIMER_CTRL_CLOCK_ENABLE :: nat where "TIMER_CTRL_CLOCK_ENABLE \<equiv> 5"

definition CALYPSO_BASE_CLK :: int where "CALYPSO_BASE_CLK = 13000000"
definition NANOSECONDS_PER_SECOND :: int where "NANOSECONDS_PER_SECOND = 1000000000"
abbreviation (input) LOST_TICKS_PER_TDMA :: "'a::len word" where "LOST_TICKS_PER_TDMA \<equiv> 1875"

definition calypso_timer_should_run :: "timer \<Rightarrow> bool" where
  "calypso_timer_should_run s \<longleftrightarrow> bit (ctrl s) TIMER_CTRL_START \<and> bit (ctrl s) TIMER_CTRL_CLOCK_ENABLE"

definition calypso_timer_recompute_tick :: "timer \<Rightarrow> timer" where
  "calypso_timer_recompute_tick s =
     (let prescaler = unat (drop_bit TIMER_CTRL_PRESCALER_SH (ctrl s AND TIMER_CTRL_PRESCALER_MSK));
          divider = push_bit prescaler 32;
          freq = CALYPSO_BASE_CLK div divider;
          freq = (if freq \<le> 0 then 1 else freq)
      in s\<lparr>tick_ns := NANOSECONDS_PER_SECOND div freq\<rparr>)"

definition calypso_timer_current_count :: "timer \<Rightarrow> int \<Rightarrow> u16" where
  "calypso_timer_current_count s now =
     (if \<not> running s then count s
      else let elapsed = now - epoch_ns s;
               elapsed = (if elapsed < 0 then 0 else elapsed);
               ticks = elapsed div tick_ns s;
               period = uint (load s) + 1
           in if bit (ctrl s) TIMER_CTRL_RELOAD then word_of_int (uint (load s) - ticks mod period)
              else if ticks > uint (load s) then 0
              else word_of_int (uint (load s) - ticks))"

definition calypso_timer_schedule_wrap :: "timer \<Rightarrow> int \<Rightarrow> int \<Rightarrow> timer" where
  "calypso_timer_schedule_wrap s now now' =
     (let cur = calypso_timer_current_count s now';
          ns_to_wrap = (uint cur + 1) * tick_ns s
      in s\<lparr>deadline := Some (now + ns_to_wrap)\<rparr>)"

definition calypso_timer_tick :: "timer \<Rightarrow> int \<Rightarrow> timer" where
  "calypso_timer_tick s now =
     (if \<not> running s then s
      else let s1 = s\<lparr>tirq := True\<rparr>
           in if bit (ctrl s1) TIMER_CTRL_RELOAD
              then s1\<lparr>epoch_ns := now, count := load s1,
                      deadline := Some (now + (uint (load s1) + 1) * tick_ns s1)\<rparr>
              else s1\<lparr>running := False, count := 0\<rparr>)"

definition calypso_timer_start :: "timer \<Rightarrow> int \<Rightarrow> timer" where
  "calypso_timer_start s now =
     (if load s = 0 then s
      else let s1 = calypso_timer_recompute_tick s
           in s1\<lparr>count := load s1, running := True, epoch_ns := now,
                 deadline := Some (now + (uint (load s1) + 1) * tick_ns s1)\<rparr>)"

definition calypso_timer_register_lost :: "timer \<Rightarrow> bool \<Rightarrow> timer" where
  "calypso_timer_register_lost s this = s\<lparr>g_lost := this\<rparr>"

definition calypso_timer_lost_frame_tick :: "timer \<Rightarrow> u32 \<Rightarrow> timer" where
  "calypso_timer_lost_frame_tick s fn =
     (if \<not> g_lost s \<or> \<not> running s then s
      else let period = ucast (load s) + 1 :: u32;
               step = ucast ((ucast fn * LOST_TICKS_PER_TDMA :: u64) mod ucast period) :: u32
           in s\<lparr>lost_latch_count := ucast (ucast (load s) - step), lost_latch_active := True\<rparr>)"

definition calypso_timer_read :: "timer \<Rightarrow> hwaddr \<Rightarrow> int \<Rightarrow> u64 \<times> timer" where
  "calypso_timer_read s offset now =
     (if offset = 0x00 then (ucast (ctrl s), s)
      else if offset = 0x02 then (ucast (load s), s)
      else if offset = 0x04 then
        (if lost_latch_active s then
           (if g_lost s then
              (let period = ucast (load s) + 1;
                   s1 = s\<lparr>lost_read_phase := (lost_read_phase s + LOST_TICKS_PER_TDMA) mod period\<rparr>
               in (ucast (ucast (ucast (load s1) - lost_read_phase s1) :: u16), s1))
            else (ucast (lost_latch_count s), s))
         else (ucast (calypso_timer_current_count s now), s))
      else (0, s))"

definition calypso_timer_write :: "timer \<Rightarrow> hwaddr \<Rightarrow> u64 \<Rightarrow> (nat \<Rightarrow> int) \<Rightarrow> timer" where
  "calypso_timer_write s offset v clk =
     (if offset = 0x00 then
        (let was_running = running s;
             old_ctrl = ctrl s;
             s1 = s\<lparr>ctrl := ucast (v AND 0xFF)\<rparr>
         in if calypso_timer_should_run s1 then
              (if \<not> was_running then calypso_timer_start s1 (clk 0)
               else if old_ctrl AND TIMER_CTRL_PRESCALER_MSK \<noteq> ctrl s1 AND TIMER_CTRL_PRESCALER_MSK then
                 (let s2 = s1\<lparr>count := calypso_timer_current_count s1 (clk 0)\<rparr>;
                      s3 = calypso_timer_recompute_tick s2;
                      s4 = s3\<lparr>epoch_ns := clk 1 - (uint (load s3) - uint (count s3)) * tick_ns s3\<rparr>
                  in calypso_timer_schedule_wrap s4 (clk 2) (clk 3))
               else s1)
            else s1\<lparr>count := calypso_timer_current_count s1 (clk 0), running := False, deadline := None\<rparr>)
      else if offset = 0x02 then s\<lparr>load := ucast v\<rparr>
      else s)"

definition calypso_timer_reset :: "timer \<Rightarrow> timer" where
  "calypso_timer_reset s =
     s\<lparr>load := 0, count := 0, ctrl := 0, prescaler := 0, running := False, lost_latch_active := False,
       lost_latch_count := 0, lost_read_phase := 0, deadline := None\<rparr>"

text \<open>The zero-initialised object.\<close>

definition timer_init :: timer where
  "timer_init = \<lparr>load = 0, count = 0, ctrl = 0, prescaler = 0, tick_ns = 0, epoch_ns = 0, running = False,
     lost_latch_active = False, lost_latch_count = 0, lost_read_phase = 0, deadline = None,
     tirq = False, g_lost = False\<rparr>"

text \<open>
  The inputs. The host fires the timer once its deadline has passed, after removing it from the
  list of active timers.
\<close>

datatype timer_in =
    TimerRead hwaddr int
  | TimerWrite hwaddr u64 "nat \<Rightarrow> int"
  | TimerExpire int
  | TimerLost bool
  | TimerFrame u32
  | TimerReset

fun timer_step :: "timer \<Rightarrow> timer_in \<Rightarrow> timer" where
  "timer_step s (TimerRead offset now) = snd (calypso_timer_read s offset now)"
| "timer_step s (TimerWrite offset v clk) = calypso_timer_write s offset v clk"
| "timer_step s (TimerExpire now) = calypso_timer_tick (s\<lparr>deadline := None\<rparr>) now"
| "timer_step s (TimerLost this) = calypso_timer_register_lost s this"
| "timer_step s (TimerFrame fn) = calypso_timer_lost_frame_tick s fn"
| "timer_step s TimerReset = calypso_timer_reset s"

fun timer_ok :: "timer \<Rightarrow> timer_in \<Rightarrow> bool" where
  "timer_ok s (TimerExpire now) = (case deadline s of None \<Rightarrow> False | Some d \<Rightarrow> d \<le> now)"
| "timer_ok s _ = True"

section \<open>Invariant\<close>

text \<open>The tick of each of the eight prescaler settings, in nanoseconds.\<close>

definition timer_ticks :: "int list" where
  "timer_ticks = [2461, 4923, 9846, 19692, 39385, 78771, 157554, 315159]"

definition timer_prescaler :: "timer \<Rightarrow> nat" where
  "timer_prescaler s = unat (take_bit 3 (drop_bit 2 (ctrl s)))"

text \<open>
  A running timer is enabled, armed and counts at the rate its control register asks for; a
  stopped one is not armed.
\<close>

definition timer_inv :: "timer \<Rightarrow> bool" where
  "timer_inv s \<longleftrightarrow> (running s \<longleftrightarrow> deadline s \<noteq> None)
     \<and> (running s \<longrightarrow> calypso_timer_should_run s \<and> tick_ns s = timer_ticks ! timer_prescaler s)
     \<and> lost_read_phase s < 65536"

lemma timer_ticks_pos: "p < 8 \<Longrightarrow> 0 < timer_ticks ! p"
  by (auto simp: timer_ticks_def less_Suc_eq numeral_eq_Suc)

lemma timer_prescaler_lt: "timer_prescaler s < 8"
  using unat_take_bit_lt [of 3 "drop_bit 2 (ctrl s)"] by (simp add: timer_prescaler_def)

lemma recompute_prescaler:
  "drop_bit 2 (c AND 0x1C) = take_bit 3 (drop_bit 2 (c :: u16))"
proof (rule bit_eqI)
  fix n show "bit (drop_bit 2 (c AND 0x1C)) n = bit (take_bit 3 (drop_bit 2 c)) n"
    by (cases "n < 16") (auto simp: bit_simps less_Suc_eq numeral_eq_Suc)
qed

lemma tick_ns_recompute [simp]:
  "tick_ns (calypso_timer_recompute_tick s) = timer_ticks ! timer_prescaler s"
proof -
  have "timer_prescaler s \<in> {0,1,2,3,4,5,6,7}"
    using timer_prescaler_lt [of s] by auto
  then show ?thesis
    unfolding calypso_timer_recompute_tick_def recompute_prescaler timer_prescaler_def [symmetric] Let_def
    by (auto simp: timer_ticks_def CALYPSO_BASE_CLK_def NANOSECONDS_PER_SECOND_def push_bit_eq_mult)
qed

lemma recompute_tick_eq:
  "calypso_timer_recompute_tick s = s\<lparr>tick_ns := timer_ticks ! timer_prescaler s\<rparr>"
  using tick_ns_recompute [of s] by (simp add: calypso_timer_recompute_tick_def Let_def)

lemma timer_prescaler_cong: "ctrl s AND 0x1C = ctrl t AND 0x1C \<Longrightarrow> timer_prescaler s = timer_prescaler t"
  by (simp add: timer_prescaler_def flip: recompute_prescaler)

lemma timer_prescaler_update [simp]:
  "timer_prescaler (s\<lparr>tick_ns := a\<rparr>) = timer_prescaler s" "timer_prescaler (s\<lparr>count := b\<rparr>) = timer_prescaler s"
  "timer_prescaler (s\<lparr>epoch_ns := a\<rparr>) = timer_prescaler s" "timer_prescaler (s\<lparr>deadline := d\<rparr>) = timer_prescaler s"
  "timer_prescaler (s\<lparr>running := r\<rparr>) = timer_prescaler s" "timer_prescaler (s\<lparr>tirq := r\<rparr>) = timer_prescaler s"
  "timer_prescaler (s\<lparr>load := w\<rparr>) = timer_prescaler s"
  by (simp_all add: timer_prescaler_def)

lemma timer_inv_init [simp]: "timer_inv timer_init"
  by (simp add: timer_inv_def timer_init_def)

lemma timer_inv_tick [inv_intros]: "timer_inv s \<Longrightarrow> timer_inv (calypso_timer_tick (s\<lparr>deadline := None\<rparr>) now)"
  by (auto simp: timer_inv_def calypso_timer_tick_def calypso_timer_should_run_def Let_def)

lemma timer_inv_start: "timer_inv s \<Longrightarrow> \<not> running s \<Longrightarrow> calypso_timer_should_run s \<Longrightarrow> timer_inv (calypso_timer_start s now)"
  by (auto simp: timer_inv_def calypso_timer_start_def calypso_timer_should_run_def recompute_tick_eq Let_def)

lemma uint_period: "uint (ucast (l :: u16) + 1 :: u32) = uint l + 1"
  using uint_lt2p [of l] by (simp add: uint_word_ariths unsigned_ucast_eq take_bit_int_eq_self)

lemma lost_phase_lt: "uint (x mod (ucast (l :: u16) + 1 :: u32)) < uint l + 1"
  using pos_mod_bound [of "uint l + 1" "uint x"] by (simp add: uint_mod_distrib uint_period)

lemma timer_inv_read [inv_intros]:
  assumes "timer_inv s"
  shows "timer_inv (snd (calypso_timer_read s offset now))"
proof -
  have "x mod (ucast (load s) + 1) < (65536 :: u32)" for x
    using lost_phase_lt [of x "load s"] uint_lt2p [of "load s"] by (simp add: word_less_def)
  with assms show ?thesis
    by (simp add: calypso_timer_read_def timer_inv_def calypso_timer_should_run_def timer_prescaler_def Let_def)
qed

lemma timer_inv_write [inv_intros]:
  assumes "timer_inv s"
  shows "timer_inv (calypso_timer_write s offset v clk)"
proof -
  let ?s1 = "s\<lparr>ctrl := ucast (v AND 0xFF)\<rparr>"
  have "timer_inv (calypso_timer_write s 0 v clk)"
  proof (cases "calypso_timer_should_run ?s1")
    case run: True
    show ?thesis
    proof (cases "running s")
      case False
      then have "timer_inv ?s1" using assms by (simp add: timer_inv_def)
      then show ?thesis using run False by (simp add: calypso_timer_write_def timer_inv_start)
    next
      case True
      then show ?thesis using assms run timer_prescaler_cong [of s ?s1]
        by (auto simp: calypso_timer_write_def timer_inv_def recompute_tick_eq Let_def
            calypso_timer_schedule_wrap_def calypso_timer_should_run_def)
    qed
  next
    case False
    then show ?thesis using assms by (simp add: calypso_timer_write_def timer_inv_def Let_def)
  qed
  moreover have "timer_inv (calypso_timer_write s 2 v clk)"
    using assms by (simp add: calypso_timer_write_def timer_inv_def calypso_timer_should_run_def)
  ultimately show ?thesis using assms by (cases "offset = 0 \<or> offset = 2") (auto simp: calypso_timer_write_def)
qed

lemma timer_inv_other [inv_intros]:
  "timer_inv s \<Longrightarrow> timer_inv (calypso_timer_register_lost s b)"
  "timer_inv s \<Longrightarrow> timer_inv (calypso_timer_lost_frame_tick s fn)"
  "timer_inv s \<Longrightarrow> timer_inv (calypso_timer_reset s)"
  by (simp_all add: timer_inv_def calypso_timer_register_lost_def calypso_timer_lost_frame_tick_def
      calypso_timer_reset_def calypso_timer_should_run_def timer_prescaler_def Let_def)

interpretation timer_dev: device timer_ok timer_step timer_init timer_inv
proof
  show "timer_inv timer_init" by simp
  show "timer_inv (timer_step s i)" if "timer_inv s" for s i
    using that by (cases i) (simp_all add: inv_intros)
qed

section \<open>The count\<close>

lemma current_count_running:
  assumes "running s" and "0 < tick_ns s"
  shows "uint (calypso_timer_current_count s now) =
    (let q = max 0 (now - epoch_ns s) div tick_ns s
     in uint (load s) - (if bit (ctrl s) 1 then q mod (uint (load s) + 1) else min q (uint (load s))))"
proof -
  define q where "q = max 0 (now - epoch_ns s) div tick_ns s"
  have q: "0 \<le> q" using assms by (simp add: q_def pos_imp_zdiv_nonneg_iff)
  have e: "(if now - epoch_ns s < 0 then 0 else now - epoch_ns s) = max 0 (now - epoch_ns s)" by simp
  have "0 \<le> q mod (uint (load s) + 1)" and "q mod (uint (load s) + 1) \<le> uint (load s)"
    using pos_mod_bound [of "uint (load s) + 1" q] pos_mod_sign [of "uint (load s) + 1" q] by simp_all
  then show ?thesis
    using assms(1) q unfolding calypso_timer_current_count_def Let_def e q_def [symmetric]
    by (auto simp: uint_minus_word_of_int min_def)
qed

lemma current_count_before_wrap:
  assumes "running s" and "0 < tick_ns s" and "epoch_ns s \<le> t" and "t < epoch_ns s + (uint (load s) + 1) * tick_ns s"
  shows "uint (calypso_timer_current_count s t) = uint (load s) - (t - epoch_ns s) div tick_ns s"
proof -
  have "(t - epoch_ns s) div tick_ns s < uint (load s) + 1"
    using assms by (intro int_div_lt) simp_all
  moreover have "0 \<le> (t - epoch_ns s) div tick_ns s" using assms by (simp add: pos_imp_zdiv_nonneg_iff)
  ultimately show ?thesis
    using assms by (simp add: current_count_running mod_pos_pos_trivial Let_def)
qed

lemma timer_inv_tick_pos: "timer_inv s \<Longrightarrow> running s \<Longrightarrow> 0 < tick_ns s"
  by (simp add: timer_inv_def timer_ticks_pos timer_prescaler_lt)

section \<open>Properties\<close>

definition timer_tick_of :: "u64 \<Rightarrow> int" where
  "timer_tick_of v = timer_ticks ! unat (take_bit 3 (drop_bit 2 v))"

lemma timer_tick_of_ctrl: "timer_ticks ! timer_prescaler (s\<lparr>ctrl := ucast (v AND 0xFF)\<rparr>) = timer_tick_of v"
proof -
  have "take_bit 3 (drop_bit 2 (ucast (v AND 0xFF) :: u16)) = ucast (take_bit 3 (drop_bit 2 v))"
    by (rule bit_eqI) (auto simp: bit_simps mask_take_bit)
  moreover have "unat (ucast (take_bit 3 w) :: u16) = unat (take_bit 3 w)" for w :: u64
    by (simp add: unsigned_ucast_eq unsigned_take_bit_eq)
  ultimately show ?thesis by (simp add: timer_prescaler_def timer_tick_of_def)
qed

lemma timer_tick_of_pos: "0 < timer_tick_of v"
  using timer_ticks_pos [OF timer_prescaler_lt [of "timer_init\<lparr>ctrl := ucast (v AND 0xFF)\<rparr>"]]
  by (simp only: timer_tick_of_ctrl)

lemma should_run_ctrl:
  "calypso_timer_should_run (s\<lparr>ctrl := ucast (v AND 0xFF)\<rparr>) \<longleftrightarrow> bit (v :: u64) 0 \<and> bit v 5"
  by (simp add: calypso_timer_should_run_def bit_simps mask_take_bit)

lemma timer_write_start:
  assumes "\<not> running s" and "load s \<noteq> 0" and "bit v 0" and "bit v 5"
  shows "calypso_timer_write s 0 v clk = s\<lparr>ctrl := ucast (v AND 0xFF), tick_ns := timer_tick_of v, count := load s,
     running := True, epoch_ns := clk 0, deadline := Some (clk 0 + (uint (load s) + 1) * timer_tick_of v)\<rparr>"
  using assms
  by (simp add: calypso_timer_write_def calypso_timer_start_def recompute_tick_eq should_run_ctrl timer_tick_of_ctrl)

text \<open>C17. Start and expiry: a stopped timer with a nonzero load, started at the first clock reading, counts down one
  step per tick of the selected prescaler, first reads 0 one tick before its deadline, and the deadline is
  exactly load + 1 ticks after the start.\<close>

theorem timer_start_expiry:
  assumes "\<not> running s" and "load s \<noteq> 0" and "bit v 0" and "bit v 5"
  shows "let s' = calypso_timer_write s 0 v clk; tick = timer_tick_of v; d = clk 0 + (uint (load s) + 1) * tick
    in deadline s' = Some d
      \<and> (\<forall>t. clk 0 \<le> t \<and> t < d \<longrightarrow>
          uint (calypso_timer_current_count s' t) = uint (load s) - (t - clk 0) div tick
        \<and> (calypso_timer_current_count s' t = 0 \<longleftrightarrow> d - tick \<le> t))"
proof -
  let ?s' = "calypso_timer_write s 0 v clk" and ?tick = "timer_tick_of v"
  let ?d = "clk 0 + (uint (load s) + 1) * ?tick"
  note s' = timer_write_start [OF assms, of clk]
  have c: "uint (calypso_timer_current_count ?s' t) = uint (load s) - (t - clk 0) div ?tick"
    if "clk 0 \<le> t" "t < ?d" for t
    using that current_count_before_wrap [of ?s' t] timer_tick_of_pos [of v] by (simp add: s')
  have "calypso_timer_current_count ?s' t = 0 \<longleftrightarrow> ?d - ?tick \<le> t" if "clk 0 \<le> t" "t < ?d" for t
  proof -
    have "(t - clk 0) div ?tick < uint (load s) + 1"
      using that timer_tick_of_pos [of v] by (intro int_div_lt) simp_all
    moreover have "(t - clk 0) div ?tick < uint (load s) \<longleftrightarrow> t - clk 0 < uint (load s) * ?tick"
      using timer_tick_of_pos [of v] by (rule int_div_lt_iff)
    ultimately show ?thesis using c [OF that] by (auto simp: word_uint_eq_iff algebra_simps)
  qed
  with c show ?thesis by (simp add: s' Let_def)
qed

text \<open>The timer at load 9, prescaler 0, started at time 1000.\<close>

definition timer_loaded :: timer where
  "timer_loaded = calypso_timer_write timer_init 2 9 (\<lambda>_. 0)"

theorem timer_start_expiry_witness:
  "uint (calypso_timer_current_count (calypso_timer_write timer_loaded 0 0x21 (\<lambda>_. 1000)) (1000 + 5 * 2461)) = 4
   \<and> deadline (calypso_timer_write timer_loaded 0 0x21 (\<lambda>_. 1000)) = Some (1000 + 10 * 2461)"
proof -
  have "\<not> running timer_loaded" and "load timer_loaded \<noteq> 0" and "load timer_loaded = 9" and "bit (0x21 :: u64) 0"
    and "bit (0x21 :: u64) 5" and "timer_tick_of 0x21 = 2461"
    by code_simp+
  with timer_start_expiry [of timer_loaded "0x21" "\<lambda>_. 1000"] show ?thesis
    by (simp add: Let_def)
qed

lemma timer_write_prescaler:
  assumes "running s" and "bit v 0" and "bit v 5" and "(ctrl s AND 0x1C) \<noteq> (ucast (v AND 0xFF) AND 0x1C)"
    and "bit v 1 = bit (ctrl s) 1"
  shows "calypso_timer_write s 0 v clk =
    (let c = calypso_timer_current_count s (clk 0);
         s4 = s\<lparr>ctrl := ucast (v AND 0xFF), count := c, tick_ns := timer_tick_of v,
                epoch_ns := clk 1 - (uint (load s) - uint c) * timer_tick_of v\<rparr>
     in s4\<lparr>deadline := Some (clk 2 + (uint (calypso_timer_current_count s4 (clk 3)) + 1) * timer_tick_of v)\<rparr>)"
proof -
  have "bit (ucast (v AND 0xFF) :: u16) 1 = bit (ctrl s) 1"
    using assms(5) by (simp add: bit_simps mask_take_bit)
  then have "calypso_timer_current_count (s\<lparr>ctrl := ucast (v AND 0xFF)\<rparr>) (clk 0) = calypso_timer_current_count s (clk 0)"
    by (simp add: calypso_timer_current_count_def Let_def)
  moreover have "timer_prescaler (s\<lparr>ctrl := ucast (v AND 0xFF), count := c\<rparr>)
      = timer_prescaler (s\<lparr>ctrl := ucast (v AND 0xFF)\<rparr>)" for c
    by (simp add: timer_prescaler_def)
  ultimately show ?thesis using assms
    by (simp add: calypso_timer_write_def should_run_ctrl recompute_tick_eq calypso_timer_schedule_wrap_def
        timer_tick_of_ctrl Let_def)
qed

text \<open>C27. Changing the prescaler of a running timer keeps its count: when the clock readings of the
  handler span less than one new tick, the count read after the write is the count before it, and the new
  deadline is the wrap of the new schedule, late by at most the time between the handler's own readings.\<close>

theorem timer_prescaler_change:
  assumes "reaches timer_ok timer_step timer_init s" and "running s" and "bit v 0" and "bit v 5"
    and "(ctrl s AND 0x1C) \<noteq> (ucast (v AND 0xFF) AND 0x1C)" and "bit v 1 = bit (ctrl s) 1"
    and "clk 1 \<le> clk 3" and "clk 3 - clk 1 < timer_tick_of v"
  shows "let s' = calypso_timer_write s 0 v clk
    in calypso_timer_current_count s' (clk 3) = calypso_timer_current_count s (clk 0)
      \<and> deadline s' = Some (epoch_ns s' + (uint (load s') + 1) * tick_ns s' + (clk 2 - clk 1))"
proof -
  define c where "c = calypso_timer_current_count s (clk 0)"
  define s4 where "s4 = s\<lparr>ctrl := ucast (v AND 0xFF), count := c, tick_ns := timer_tick_of v,
                epoch_ns := clk 1 - (uint (load s) - uint c) * timer_tick_of v\<rparr>"
  note tick = timer_tick_of_pos [of v]
  have "0 < tick_ns s" using timer_dev.reachable_invar assms(1,2) by (blast intro: timer_inv_tick_pos)
  then have c: "uint c \<le> uint (load s)"
    using assms(2) by (simp add: c_def current_count_running Let_def pos_imp_zdiv_nonneg_iff)
  have e: "(uint (load s) - uint c) * timer_tick_of v + (clk 3 - clk 1) < (uint (load s) - uint c + 1) * timer_tick_of v"
    using assms(8) by (simp add: algebra_simps)
  also have "\<dots> \<le> (uint (load s) + 1) * timer_tick_of v"
    using tick by (intro mult_right_mono) simp_all
  finally have "clk 3 < epoch_ns s4 + (uint (load s4) + 1) * tick_ns s4" by (simp add: s4_def)
  moreover have "0 \<le> (uint (load s) - uint c) * timer_tick_of v" using tick c by simp
  then have "epoch_ns s4 \<le> clk 3" using assms(7) by (simp add: s4_def)
  moreover have "(clk 3 - epoch_ns s4) div timer_tick_of v = uint (load s) - uint c"
  proof -
    have "clk 3 - epoch_ns s4 = (clk 3 - clk 1) + (uint (load s) - uint c) * timer_tick_of v"
      by (simp add: s4_def)
    moreover have "((clk 3 - clk 1) + (uint (load s) - uint c) * timer_tick_of v) div timer_tick_of v = uint (load s) - uint c"
      using tick assms(7,8) by (simp add: div_pos_pos_trivial)
    ultimately show ?thesis by (simp only:)
  qed
  ultimately have "uint (calypso_timer_current_count s4 (clk 3)) = uint c"
    using current_count_before_wrap [of s4 "clk 3"] tick assms(2) by (simp add: s4_def)
  then have cc: "calypso_timer_current_count s4 (clk 3) = c" by (simp add: word_uint_eq_iff)
  moreover have "calypso_timer_current_count (s4\<lparr>deadline := d\<rparr>) t = calypso_timer_current_count s4 t" for d t
    by (simp add: calypso_timer_current_count_def Let_def)
  moreover have "calypso_timer_write s 0 v clk =
      s4\<lparr>deadline := Some (clk 2 + (uint (calypso_timer_current_count s4 (clk 3)) + 1) * timer_tick_of v)\<rparr>"
    using timer_write_prescaler [OF assms(2-6), of clk] by (simp add: c_def s4_def Let_def)
  ultimately show ?thesis by (simp add: c_def [symmetric] Let_def) (simp add: s4_def algebra_simps)
qed

text \<open>A running timer: load 9, prescaler 0, reloading, started at time 1000.\<close>

definition timer_reloading :: timer where
  "timer_reloading = calypso_timer_write timer_loaded 0 0x23 (\<lambda>_. 1000)"

lemma timer_reloading_reachable: "reaches timer_ok timer_step timer_init timer_reloading"
proof (rule run_reaches)
  show "run timer_ok timer_step timer_init [TimerWrite 2 9 (\<lambda>_. 0), TimerWrite 0 0x23 (\<lambda>_. 1000)] = Some timer_reloading"
    by (simp add: timer_reloading_def timer_loaded_def)
qed

theorem timer_prescaler_change_witness:
  "let s' = calypso_timer_write timer_reloading 0 0x27 (\<lambda>i. 1000 + 4 * 2461 + int i)
   in uint (calypso_timer_current_count s' (1000 + 4 * 2461 + 3)) = 5 \<and> tick_ns s' = 4923"
proof -
  let ?clk = "\<lambda>i. 1000 + 4 * 2461 + int i"
  have h: "running timer_reloading" "bit (0x27 :: u64) 0" "bit (0x27 :: u64) 5"
    "(ctrl timer_reloading AND 0x1C) \<noteq> (ucast (0x27 AND 0xFF :: u64) AND 0x1C)"
    "bit (0x27 :: u64) 1 = bit (ctrl timer_reloading) 1"
    "uint (calypso_timer_current_count timer_reloading (?clk 0)) = 5"
    "timer_tick_of 0x27 = 4923" "tick_ns (calypso_timer_write timer_reloading 0 0x27 ?clk) = 4923"
    by code_simp+
  show ?thesis
    using timer_prescaler_change [OF timer_reloading_reachable h(1-5), of ?clk] h(6-8) by (simp add: Let_def)
qed

lemma lost_read_value:
  assumes "lost_latch_active s" and "g_lost s" and "timer_inv s"
  shows "uint (fst (calypso_timer_read s 4 now)) = uint (load s) - (uint (lost_read_phase s) + 1875) mod (uint (load s) + 1)"
    and "uint (lost_read_phase (snd (calypso_timer_read s 4 now))) = (uint (lost_read_phase s) + 1875) mod (uint (load s) + 1)"
proof -
  let ?x = "lost_read_phase s + 1875"
  have "uint ?x = uint (lost_read_phase s) + 1875"
    using assms(3) by (simp add: timer_inv_def word_less_def uint_word_ariths)
  then have ph: "uint (?x mod (ucast (load s) + 1)) = (uint (lost_read_phase s) + 1875) mod (uint (load s) + 1)"
    by (simp add: uint_mod_distrib uint_period)
  then show "uint (lost_read_phase (snd (calypso_timer_read s 4 now))) = (uint (lost_read_phase s) + 1875) mod (uint (load s) + 1)"
    using assms by (simp add: calypso_timer_read_def Let_def)
  let ?d = "ucast (load s) - ?x mod (ucast (load s) + 1) :: u32"
  have l: "uint (ucast (load s) :: u32) = uint (load s)"
    using uint_lt2p [of "load s"] by (simp add: unsigned_ucast_eq take_bit_int_eq_self)
  then have d: "uint ?d = uint (load s) - (uint (lost_read_phase s) + 1875) mod (uint (load s) + 1)"
    using uint_sub_lem [of "?x mod (ucast (load s) + 1)" "ucast (load s)"] lost_phase_lt [of ?x "load s"]
    by (simp add: ph)
  have "0 \<le> (uint (lost_read_phase s) + 1875) mod (uint (load s) + 1)" by simp
  moreover have "uint (load s) < 65536" using uint_lt2p [of "load s"] by simp
  ultimately have "uint ?d < 65536" unfolding d by linarith
  then have "uint (ucast (ucast ?d :: u16) :: u64) = uint ?d"
    by (simp add: unsigned_ucast_eq unsigned_take_bit_eq take_bit_int_eq_self)
  then show "uint (fst (calypso_timer_read s 4 now)) = uint (load s) - (uint (lost_read_phase s) + 1875) mod (uint (load s) + 1)"
    using assms by (simp add: calypso_timer_read_def Let_def flip: d)
qed

text \<open>C26. The lost-frame counter: once the latch is active, two successive reads of the registered timer
  differ by exactly the 1875 ticks of one TDMA frame modulo the period, whatever the clock says and
  whichever frames were signalled in between.\<close>

theorem timer_lost_reads:
  assumes "reaches timer_ok timer_step timer_init s" and "lost_latch_active s" and "g_lost s"
  shows "let (r1, s1) = calypso_timer_read s 4 t1; (r2, s2) = calypso_timer_read (calypso_timer_lost_frame_tick s1 fn) 4 t2
    in (uint r1 - uint r2) mod (uint (load s) + 1) = 1875 mod (uint (load s) + 1)
      \<and> uint r1 \<le> uint (load s) \<and> uint r2 \<le> uint (load s)"
proof -
  define s1 where "s1 = snd (calypso_timer_read s 4 t1)"
  define s1' where "s1' = calypso_timer_lost_frame_tick s1 fn"
  have inv: "timer_inv s" using assms(1) by (rule timer_dev.reachable_invar)
  then have inv': "timer_inv s1'" by (simp add: s1_def s1'_def inv_intros)
  have eq: "load s1' = load s" "lost_latch_active s1'" "g_lost s1'" "lost_read_phase s1' = lost_read_phase s1"
    using assms(2,3) by (auto simp: s1_def s1'_def calypso_timer_read_def calypso_timer_lost_frame_tick_def Let_def)
  let ?p = "uint (load s) + 1" and ?a = "uint (lost_read_phase s) + 1875"
  have r1: "uint (fst (calypso_timer_read s 4 t1)) = uint (load s) - ?a mod ?p"
    and ph: "uint (lost_read_phase s1) = ?a mod ?p"
    using lost_read_value [OF assms(2,3) inv] by (simp_all add: s1_def)
  have r2: "uint (fst (calypso_timer_read s1' 4 t2)) = uint (load s) - (?a mod ?p + 1875) mod ?p"
    using lost_read_value [OF eq(2,3) inv'] by (simp add: eq ph)
  have "((?a mod ?p + 1875) mod ?p - ?a mod ?p) mod ?p = 1875 mod ?p" by (simp add: mod_simps)
  moreover have "0 \<le> x mod ?p" for x by simp
  ultimately show ?thesis
    using r1 r2 by (simp add: s1_def s1'_def case_prod_beta Let_def)
qed

definition timer_latched :: timer where
  "timer_latched = calypso_timer_lost_frame_tick (calypso_timer_register_lost
     (calypso_timer_write (calypso_timer_write timer_init 2 9999 (\<lambda>_. 0)) 0 0x23 (\<lambda>_. 0)) True) 7"

theorem timer_lost_reads_witness:
  "let (r1, s1) = calypso_timer_read timer_latched 4 0; (r2, s2) = calypso_timer_read (calypso_timer_lost_frame_tick s1 12) 4 0
   in (uint r1 - uint r2) mod 10000 = 1875"
proof -
  have "reaches timer_ok timer_step timer_init timer_latched"
    by (rule run_reaches [of _ _ _ "[TimerWrite 2 9999 (\<lambda>_. 0), TimerWrite 0 0x23 (\<lambda>_. 0), TimerLost True, TimerFrame 7]"])
      (simp add: timer_latched_def)
  moreover have "lost_latch_active timer_latched" and "g_lost timer_latched" and "uint (load timer_latched) = 9999"
    by code_simp+
  ultimately show ?thesis
    using timer_lost_reads [of timer_latched 0 12 0] by (simp add: case_prod_beta Let_def)
qed

end
