(* ===== verification/Uart.thy ===== *)
theory Uart
  imports Ring
begin

text \<open>
  The Calypso UART, \<open>hw/char/calypso_uart.c\<close>: the register file of a TI 16C750 with its
  configuration mode (LCR = 0xBF), a receive ring of 8192 bytes, the interrupt logic with the
  receive wake-up of the TI driver, and the boot-ROM loader stub that answers the host's download
  protocol on the modem port before the firmware owns it.

  The calls that leave the device (interrupt line, character backend, layer 1 transmit hook) are
  appended to \<open>trace\<close> in the order the code makes them; \<open>uirq\<close> is the level of the line. The array
  \<open>rx_fifo[8192]\<close> is a function of its index, and \<open>rx_head\<close>, \<open>rx_tail\<close>, \<open>rx_count\<close> (\<open>uint16_t\<close>) are
  natural numbers: the invariant keeps them below 8193, so they never wrap. Debug prints are left out.
\<close>

section \<open>State\<close>

datatype uart_ev =
    UIrq bool
  | UChrWrite "u8 list"
  | UAcceptInput
  | UL1Tx u8

record uart =
  label :: "string option"
  ier :: u8
  iir :: u8
  fcr :: u8
  lcr :: u8
  mcr :: u8
  lsr :: u8
  msr :: u8
  spr :: u8
  dll :: u8
  dlh :: u8
  mdr1 :: u8
  efr :: u8
  xon1 :: u8
  xon2 :: u8
  xoff1 :: u8
  xoff2 :: u8
  scr :: u8
  ssr :: u8
  wakeup_pending :: bool
  rx_fifo :: "nat \<Rightarrow> u8"
  rx_head :: nat
  rx_tail :: nat
  rx_count :: nat
  thr_empty_pending :: bool
  tx_empty_reads :: u8
  rx_poll_timer :: "int option"
  uirq :: bool
  trace :: "uart_ev list"

abbreviation (input) CALYPSO_UART_RX_FIFO_SIZE :: nat where "CALYPSO_UART_RX_FIFO_SIZE \<equiv> 8192"

abbreviation (input) IER_RX_DATA :: nat where "IER_RX_DATA \<equiv> 0"
abbreviation (input) IER_TX_EMPTY :: nat where "IER_TX_EMPTY \<equiv> 1"
abbreviation (input) IER_RX_LINE :: nat where "IER_RX_LINE \<equiv> 2"
abbreviation (input) IIR_NO_INT :: u8 where "IIR_NO_INT \<equiv> 0x01"
abbreviation (input) IIR_RX_LINE :: u8 where "IIR_RX_LINE \<equiv> 0x06"
abbreviation (input) IIR_RX_DATA :: u8 where "IIR_RX_DATA \<equiv> 0x04"
abbreviation (input) IIR_TX_EMPTY :: u8 where "IIR_TX_EMPTY \<equiv> 0x02"
abbreviation (input) LCR_DLAB :: nat where "LCR_DLAB \<equiv> 7"
abbreviation (input) LCR_CONF_BF :: u8 where "LCR_CONF_BF \<equiv> 0xBF"
abbreviation (input) LSR_DR :: nat where "LSR_DR \<equiv> 0"
abbreviation (input) LSR_OE :: nat where "LSR_OE \<equiv> 1"
abbreviation (input) LSR_THRE :: nat where "LSR_THRE \<equiv> 5"
abbreviation (input) LSR_TEMT :: nat where "LSR_TEMT \<equiv> 6"
abbreviation (input) FCR_RX_RESET :: nat where "FCR_RX_RESET \<equiv> 1"
abbreviation (input) FCR_TX_RESET :: nat where "FCR_TX_RESET \<equiv> 2"
abbreviation (input) MSR_CTS_DSR_DCD :: "'a::len word" where "MSR_CTS_DSR_DCD \<equiv> 0xB0"

definition uart_emit :: "uart \<Rightarrow> uart_ev \<Rightarrow> uart" where
  "uart_emit s e = s\<lparr>trace := trace s @ [e]\<rparr>"

definition uart_irq_set :: "uart \<Rightarrow> bool \<Rightarrow> uart" where
  "uart_irq_set s b = uart_emit (s\<lparr>uirq := b\<rparr>) (UIrq b)"

section \<open>The receive ring and the interrupt\<close>

definition fifo_reset :: "uart \<Rightarrow> uart" where
  "fifo_reset s = s\<lparr>rx_head := 0, rx_tail := 0, rx_count := 0\<rparr>"

definition fifo_push :: "uart \<Rightarrow> u8 \<Rightarrow> uart" where
  "fifo_push s data =
     (if rx_count s \<ge> CALYPSO_UART_RX_FIFO_SIZE then s\<lparr>lsr := set_bit LSR_OE (lsr s)\<rparr>
      else s\<lparr>rx_fifo := (rx_fifo s)(rx_head s := data),
             rx_head := (rx_head s + 1) mod CALYPSO_UART_RX_FIFO_SIZE,
             rx_count := rx_count s + 1\<rparr>)"

definition fifo_pop :: "uart \<Rightarrow> u8 \<times> uart" where
  "fifo_pop s =
     (if rx_count s = 0 then (0, s)
      else (rx_fifo s (rx_tail s),
            s\<lparr>rx_tail := (rx_tail s + 1) mod CALYPSO_UART_RX_FIFO_SIZE, rx_count := rx_count s - 1\<rparr>))"

definition calypso_uart_update_irq :: "uart \<Rightarrow> uart" where
  "calypso_uart_update_irq s =
     (let (i, want) =
            (if bit (ier s) IER_RX_LINE \<and> bit (lsr s) LSR_OE then (IIR_RX_LINE, True)
             else if bit (ier s) IER_RX_DATA \<and> bit (lsr s) LSR_DR then (IIR_RX_DATA, True)
             else if bit (ier s) IER_TX_EMPTY \<and> thr_empty_pending s then (IIR_TX_EMPTY, True)
             else (IIR_NO_INT, False));
          want = (if wakeup_pending s \<and> bit (scr s) 4 then True else want);
          s1 = uart_irq_set (s\<lparr>iir := i\<rparr>) False
      in if want then uart_irq_set s1 True else s1)"

definition calypso_uart_kick_rx :: "uart \<Rightarrow> uart" where
  "calypso_uart_kick_rx s =
     (if rx_count s > 0 \<and> bit (lsr s) LSR_DR then calypso_uart_update_irq (uart_irq_set s False) else s)"

definition calypso_uart_poll_backend :: "uart \<Rightarrow> uart" where
  "calypso_uart_poll_backend s = uart_emit s UAcceptInput"

definition calypso_uart_kick_tx :: "uart \<Rightarrow> uart" where
  "calypso_uart_kick_tx s = calypso_uart_update_irq s"

definition calypso_uart_inject_raw :: "uart \<Rightarrow> u8 list \<Rightarrow> uart" where
  "calypso_uart_inject_raw s buf =
     (let s1 = foldl fifo_push s buf
      in if rx_count s1 > 0 then
           (let s2 = s1\<lparr>lsr := set_bit LSR_DR (lsr s1)\<rparr>;
                s3 = (if bit (scr s2) 4 then s2\<lparr>wakeup_pending := True\<rparr> else s2)
            in calypso_uart_update_irq s3)
         else s1)"

definition calypso_uart_force_init :: "uart \<Rightarrow> uart" where
  "calypso_uart_force_init s =
     (let s1 = (if mdr1 s \<noteq> 0 then s\<lparr>mdr1 := 0, scr := 1\<rparr> else s)
      in calypso_uart_update_irq (s1\<lparr>ier := 0x03\<rparr>))"

definition calypso_uart_rx_poll :: "uart \<Rightarrow> int \<Rightarrow> uart" where
  "calypso_uart_rx_poll s now_ms = (uart_emit s UAcceptInput)\<lparr>rx_poll_timer := Some (now_ms + 5)\<rparr>"

section \<open>The boot-ROM loader stub\<close>

datatype RomloadState = ROM_IDLE | ROM_AFTER_3C | ROM_BLOCK_DATA | ROM_CHK_DATA | ROM_BR_DATA | ROM_PASSTHROUGH

record romload =
  rstate :: RomloadState
  needed :: int
  payload_size :: u16

definition romload_init :: romload where
  "romload_init = \<lparr>rstate = ROM_IDLE, needed = 0, payload_size = 1024\<rparr>"

definition calypso_uart_romload_passthrough :: "romload \<Rightarrow> romload" where
  "calypso_uart_romload_passthrough r = r\<lparr>rstate := ROM_PASSTHROUGH\<rparr>"

text \<open>The common shape of the three data states: count down and acknowledge on the last byte.\<close>

definition romload_countdown :: "romload \<Rightarrow> uart \<Rightarrow> u8 list \<Rightarrow> RomloadState \<Rightarrow> bool \<times> romload \<times> uart" where
  "romload_countdown r s ack next =
     (let r1 = r\<lparr>needed := needed r - 1\<rparr>
      in if needed r1 = 0 then (True, r1\<lparr>rstate := next\<rparr>, uart_emit s (UChrWrite ack)) else (True, r1, s))"

definition romload_stub_eat :: "romload \<Rightarrow> uart \<Rightarrow> u8 \<Rightarrow> bool \<times> romload \<times> uart" where
  "romload_stub_eat r s b =
     (case rstate r of
        ROM_PASSTHROUGH \<Rightarrow> (False, r, s)
      | ROM_IDLE \<Rightarrow> (True, if b = 0x3c then r\<lparr>rstate := ROM_AFTER_3C\<rparr> else r, s)
      | ROM_AFTER_3C \<Rightarrow>
          (if b = 0x69 then
             (let n = ucast (payload_size r) + 10 :: u32;
                  ack = [0x3e, 0x69, 0x3e, 0x70, ucast (n AND 0xFF), ucast (drop_bit 8 n AND 0xFF)]
              in (True, r\<lparr>rstate := ROM_IDLE\<rparr>, uart_emit s (UChrWrite ack)))
           else if b = 0x77 then (True, r\<lparr>rstate := ROM_BLOCK_DATA, needed := 8 + uint (payload_size r)\<rparr>, s)
           else if b = 0x63 then (True, r\<lparr>rstate := ROM_CHK_DATA, needed := 1\<rparr>, s)
           else if b = 0x62 then (True, r\<lparr>rstate := ROM_BR_DATA, needed := 4\<rparr>, s)
           else (True, r\<lparr>rstate := ROM_IDLE\<rparr>, s))
      | ROM_BLOCK_DATA \<Rightarrow> romload_countdown r s [0x3e, 0x77] ROM_IDLE
      | ROM_CHK_DATA \<Rightarrow> romload_countdown r s [0x3e, 0x63, b] ROM_IDLE
      | ROM_BR_DATA \<Rightarrow> romload_countdown r s [0x3e, 0x62] ROM_PASSTHROUGH)"

text \<open>The loop of the modem branch of \<open>calypso_uart_receive\<close>: the last component is \<open>passthrough[0..pt_len]\<close>.\<close>

fun romload_filter :: "romload \<Rightarrow> uart \<Rightarrow> u8 list \<Rightarrow> romload \<times> uart \<times> u8 list" where
  "romload_filter r s [] = (r, s, [])"
| "romload_filter r s (b # bs) =
     (let (eaten, r1, s1) = romload_stub_eat r s b;
          (r2, s2, pt) = romload_filter r1 s1 bs
      in (r2, s2, if eaten then pt else b # pt))"

definition calypso_uart_can_receive :: "uart \<Rightarrow> nat" where
  "calypso_uart_can_receive s = CALYPSO_UART_RX_FIFO_SIZE - rx_count s"

definition uart_set_dr :: "uart \<Rightarrow> uart" where
  "uart_set_dr s = (if rx_count s > 0 then s\<lparr>lsr := set_bit LSR_DR (lsr s)\<rparr> else s)"

definition calypso_uart_receive :: "romload \<Rightarrow> uart \<Rightarrow> u8 list \<Rightarrow> romload \<times> uart" where
  "calypso_uart_receive r s buf =
     (if label s = Some ''irda'' then (r, calypso_uart_update_irq (uart_set_dr (foldl fifo_push s buf)))
      else if label s = Some ''modem'' then
        (let (r1, s1, passthrough) = romload_filter r s buf;
             s2 = (if passthrough \<noteq> [] then calypso_uart_inject_raw s1 passthrough else s1)
         in (r1, uart_emit s2 UAcceptInput))
      else (r, calypso_uart_update_irq (uart_set_dr (calypso_uart_inject_raw s buf))))"

section \<open>Registers\<close>

definition calypso_uart_read :: "uart \<Rightarrow> hwaddr \<Rightarrow> u64 \<times> uart" where
  "calypso_uart_read s offset =
     (if offset = 0x00 then
        (if bit (lcr s) LCR_DLAB then (ucast (dll s), s)
         else let (v, s1) = fifo_pop s;
                  s2 = (if rx_count s1 > 0 then s1\<lparr>lsr := set_bit LSR_DR (lsr s1)\<rparr>
                        else s1\<lparr>lsr := unset_bit LSR_DR (lsr s1)\<rparr>)
              in (ucast v, calypso_uart_update_irq s2))
      else if offset = 0x01 then (ucast (if bit (lcr s) LCR_DLAB then dlh s else ier s), s)
      else if offset = 0x02 then
        (if lcr s = LCR_CONF_BF then (ucast (efr s), s)
         else (ucast (iir s),
               if iir s AND 0x0F = IIR_TX_EMPTY then
                 (let s1 = s\<lparr>tx_empty_reads := tx_empty_reads s + 1\<rparr>
                  in if tx_empty_reads s1 \<ge> 2
                     then calypso_uart_update_irq (s1\<lparr>thr_empty_pending := False, tx_empty_reads := 0\<rparr>)
                     else s1)
               else s))
      else if offset = 0x03 then (ucast (lcr s), s)
      else if offset = 0x04 then (ucast (if lcr s = LCR_CONF_BF then xon1 s else mcr s), s)
      else if offset = 0x05 then
        (if lcr s = LCR_CONF_BF then (ucast (xon2 s), s)
         else (ucast (lsr s), s\<lparr>lsr := unset_bit LSR_OE (lsr s)\<rparr>))
      else if offset = 0x06 then (if lcr s = LCR_CONF_BF then ucast (xoff1 s) else MSR_CTS_DSR_DCD, s)
      else if offset = 0x07 then (ucast (if lcr s = LCR_CONF_BF then xoff2 s else spr s), s)
      else if offset = 0x08 then (ucast (mdr1 s), s)
      else if offset = 0x10 then (ucast (scr s), s)
      else if offset = 0x11 then
        (let v = ucast (unset_bit 0 (ssr s))
         in (if wakeup_pending s \<and> bit (scr s) 4 then v OR 0x02 else v, s))
      else (0, s))"

definition uart_write_thr :: "uart \<Rightarrow> u64 \<Rightarrow> uart" where
  "uart_write_thr s v =
     (let ch = ucast v :: u8;
          s1 = uart_emit s (UChrWrite [ch]);
          s2 = (if label s1 = Some ''modem'' then uart_emit s1 (UL1Tx ch) else s1)
      in calypso_uart_update_irq
           (s2\<lparr>lsr := set_bit LSR_TEMT (set_bit LSR_THRE (lsr s2)), thr_empty_pending := True, tx_empty_reads := 0\<rparr>))"

definition uart_write_ier :: "uart \<Rightarrow> u64 \<Rightarrow> uart" where
  "uart_write_ier s v =
     (let old = ier s;
          s1 = s\<lparr>ier := ucast (v AND 0x0F)\<rparr>
      in calypso_uart_update_irq
           (if \<not> bit old IER_TX_EMPTY \<and> bit (ier s1) IER_TX_EMPTY \<and> bit (lsr s1) LSR_THRE
            then s1\<lparr>thr_empty_pending := True\<rparr> else s1))"

definition uart_write_fcr :: "uart \<Rightarrow> u64 \<Rightarrow> uart" where
  "uart_write_fcr s v =
     (let s1 = s\<lparr>fcr := ucast v\<rparr>;
          s2 = (if bit v FCR_RX_RESET
                then (let r = fifo_reset s1 in r\<lparr>lsr := unset_bit LSR_DR (lsr r)\<rparr>) else s1);
          s3 = (if bit v FCR_TX_RESET
                then s2\<lparr>thr_empty_pending := False, lsr := set_bit LSR_TEMT (set_bit LSR_THRE (lsr s2))\<rparr> else s2)
      in calypso_uart_update_irq s3)"

definition calypso_uart_write :: "uart \<Rightarrow> hwaddr \<Rightarrow> u64 \<Rightarrow> uart" where
  "calypso_uart_write s offset v =
     (if offset = 0x00 then (if bit (lcr s) LCR_DLAB then s\<lparr>dll := ucast v\<rparr> else uart_write_thr s v)
      else if offset = 0x01 then (if bit (lcr s) LCR_DLAB then s\<lparr>dlh := ucast v\<rparr> else uart_write_ier s v)
      else if offset = 0x02 then (if lcr s = LCR_CONF_BF then s\<lparr>efr := ucast v\<rparr> else uart_write_fcr s v)
      else if offset = 0x03 then s\<lparr>lcr := ucast v\<rparr>
      else if offset = 0x04 then (if lcr s = LCR_CONF_BF then s\<lparr>xon1 := ucast v\<rparr> else s\<lparr>mcr := ucast v\<rparr>)
      else if offset = 0x05 then (if lcr s = LCR_CONF_BF then s\<lparr>xon2 := ucast v\<rparr> else s)
      else if offset = 0x06 then (if lcr s = LCR_CONF_BF then s\<lparr>xoff1 := ucast v\<rparr> else s)
      else if offset = 0x07 then (if lcr s = LCR_CONF_BF then s\<lparr>xoff2 := ucast v\<rparr> else s\<lparr>spr := ucast v\<rparr>)
      else if offset = 0x08 then s\<lparr>mdr1 := ucast v\<rparr>
      else if offset = 0x10 then
        (let s1 = s\<lparr>scr := ucast v\<rparr>
         in calypso_uart_update_irq (if \<not> bit v 4 then s1\<lparr>wakeup_pending := False\<rparr> else s1))
      else if offset = 0x11 then s\<lparr>ssr := ucast v\<rparr>
      else s)"

definition calypso_uart_reset_state :: "uart \<Rightarrow> uart" where
  "calypso_uart_reset_state s =
     fifo_reset (s\<lparr>ier := 0, iir := IIR_NO_INT, fcr := 0, lcr := 0, mcr := 0, lsr := 0x60,
       msr := MSR_CTS_DSR_DCD, spr := 0, dll := 0, dlh := 0, mdr1 := 0, efr := 0, xon1 := 0, xon2 := 0,
       xoff1 := 0, xoff2 := 0, scr := 0, ssr := 0, thr_empty_pending := False\<rparr>)"

text \<open>The realized object: zero-initialised, its poll timer armed when a backend is connected.\<close>

definition calypso_uart_realize :: "string option \<Rightarrow> bool \<Rightarrow> int \<Rightarrow> uart" where
  "calypso_uart_realize lbl connected now_ms =
     \<lparr>label = lbl, ier = 0, iir = 0, fcr = 0, lcr = 0, mcr = 0, lsr = 0, msr = 0, spr = 0, dll = 0, dlh = 0,
      mdr1 = 0, efr = 0, xon1 = 0, xon2 = 0, xoff1 = 0, xoff2 = 0, scr = 0, ssr = 0, wakeup_pending = False,
      rx_fifo = (\<lambda>_. 0), rx_head = 0, rx_tail = 0, rx_count = 0, thr_empty_pending = False, tx_empty_reads = 0,
      rx_poll_timer = (if connected then Some (now_ms + 10) else None), uirq = False, trace = []\<rparr>"

definition uart_init :: "string option \<Rightarrow> uart" where
  "uart_init lbl = calypso_uart_reset_state (calypso_uart_realize lbl True 0)"

text \<open>
  The inputs of one port with the loader stub's global state. The backend delivers at most what
  \<open>calypso_uart_can_receive\<close> announced, the contract of a character device front end.
\<close>

datatype uart_in =
    UartRead hwaddr
  | UartWrite hwaddr u64
  | UartReceive "u8 list"
  | UartInject "u8 list"
  | UartPoll int
  | UartKickRx
  | UartKickTx
  | UartPollBackend
  | UartForceInit
  | UartPassthrough
  | UartReset

fun uart_step :: "romload \<times> uart \<Rightarrow> uart_in \<Rightarrow> romload \<times> uart" where
  "uart_step (r, s) (UartRead offset) = (r, snd (calypso_uart_read s offset))"
| "uart_step (r, s) (UartWrite offset v) = (r, calypso_uart_write s offset v)"
| "uart_step (r, s) (UartReceive buf) = calypso_uart_receive r s buf"
| "uart_step (r, s) (UartInject buf) = (r, calypso_uart_inject_raw s buf)"
| "uart_step (r, s) (UartPoll now_ms) = (r, calypso_uart_rx_poll s now_ms)"
| "uart_step (r, s) UartKickRx = (r, calypso_uart_kick_rx s)"
| "uart_step (r, s) UartKickTx = (r, calypso_uart_kick_tx s)"
| "uart_step (r, s) UartPollBackend = (r, calypso_uart_poll_backend s)"
| "uart_step (r, s) UartForceInit = (r, calypso_uart_force_init s)"
| "uart_step (r, s) UartPassthrough = (calypso_uart_romload_passthrough r, s)"
| "uart_step (r, s) UartReset = (r, calypso_uart_reset_state s)"

fun uart_ok :: "romload \<times> uart \<Rightarrow> uart_in \<Rightarrow> bool" where
  "uart_ok (r, s) (UartReceive buf) = (length buf \<le> calypso_uart_can_receive s)"
| "uart_ok (r, s) (UartPoll now_ms) = (case rx_poll_timer s of None \<Rightarrow> False | Some d \<Rightarrow> d \<le> now_ms)"
| "uart_ok (r, s) _ = True"

section \<open>Specification of the interrupt and of the queue\<close>

definition uart_iir :: "uart \<Rightarrow> u8" where
  "uart_iir s =
     (if bit (ier s) IER_RX_LINE \<and> bit (lsr s) LSR_OE then IIR_RX_LINE
      else if bit (ier s) IER_RX_DATA \<and> bit (lsr s) LSR_DR then IIR_RX_DATA
      else if bit (ier s) IER_TX_EMPTY \<and> thr_empty_pending s then IIR_TX_EMPTY
      else IIR_NO_INT)"

definition uart_want :: "uart \<Rightarrow> bool" where
  "uart_want s \<longleftrightarrow> uart_iir s \<noteq> IIR_NO_INT \<or> (wakeup_pending s \<and> bit (scr s) 4)"

definition rx_bytes :: "uart \<Rightarrow> u8 list" where
  "rx_bytes s = ring_list CALYPSO_UART_RX_FIFO_SIZE (rx_fifo s) (rx_tail s) (rx_count s)"

definition uart_ring :: "uart \<Rightarrow> bool" where
  "uart_ring s \<longleftrightarrow> rx_tail s < CALYPSO_UART_RX_FIFO_SIZE \<and> rx_count s \<le> CALYPSO_UART_RX_FIFO_SIZE
     \<and> rx_head s = (rx_tail s + rx_count s) mod CALYPSO_UART_RX_FIFO_SIZE"

lemma update_irq_eq:
  "calypso_uart_update_irq s = s\<lparr>iir := uart_iir s, uirq := uart_want s,
     trace := trace s @ (if uart_want s then [UIrq False, UIrq True] else [UIrq False])\<rparr>"
  by (simp add: calypso_uart_update_irq_def uart_irq_set_def uart_emit_def uart_want_def uart_iir_def Let_def)

lemma update_irq_fields [simp]:
  "rx_tail (calypso_uart_update_irq s) = rx_tail s" "rx_head (calypso_uart_update_irq s) = rx_head s"
  "rx_count (calypso_uart_update_irq s) = rx_count s" "rx_fifo (calypso_uart_update_irq s) = rx_fifo s"
  "lsr (calypso_uart_update_irq s) = lsr s" "ier (calypso_uart_update_irq s) = ier s"
  "lcr (calypso_uart_update_irq s) = lcr s" "label (calypso_uart_update_irq s) = label s"
  by (simp_all add: update_irq_eq)

text \<open>The receive ring is a bounded queue of 8192 bytes.\<close>

interpretation uart_q: bounded_fifo 8192 rx_bytes uart_ring fifo_push fifo_pop
proof
  fix s :: uart and x
  assume inv: "uart_ring s"
  show "uart_ring (fifo_push s x)" and "uart_ring (snd (fifo_pop s))"
    using inv by (cases "rx_count s"; auto simp: uart_ring_def fifo_push_def fifo_pop_def mod_simps)+
  show "length (rx_bytes s) \<le> 8192" using inv by (simp add: rx_bytes_def uart_ring_def)
  show "rx_bytes (fifo_push s x) = (if length (rx_bytes s) < 8192 then rx_bytes s @ [x] else rx_bytes s)"
    using inv ring_list_push [of "rx_count s" 8192 "rx_fifo s" "rx_tail s" x]
    by (auto simp: rx_bytes_def uart_ring_def fifo_push_def)
  show "rx_bytes (snd (fifo_pop s)) = tl (rx_bytes s)"
    using inv ring_list_pop [of "rx_tail s" 8192 "rx_fifo s" "rx_count s - 1"]
    by (auto simp: rx_bytes_def uart_ring_def fifo_pop_def)
  show "fst (fifo_pop s) = hd (rx_bytes s)" if "rx_bytes s \<noteq> []"
    using inv that ring_list_pop [of "rx_tail s" 8192 "rx_fifo s" "rx_count s - 1"]
    by (auto simp: rx_bytes_def uart_ring_def fifo_pop_def)
qed

text \<open>
  The invariant: the ring is well formed, the data-ready flag says whether it holds a byte, and the
  loader stub waits for at least one more byte in its data states.
\<close>

definition romload_inv :: "romload \<Rightarrow> bool" where
  "romload_inv r \<longleftrightarrow> (rstate r \<in> {ROM_BLOCK_DATA, ROM_CHK_DATA, ROM_BR_DATA} \<longrightarrow> 0 < needed r)"

definition uart_dr :: "uart \<Rightarrow> bool" where
  "uart_dr s \<longleftrightarrow> uart_ring s \<and> (bit (lsr s) LSR_DR \<longleftrightarrow> rx_count s > 0)"

fun uart_inv :: "romload \<times> uart \<Rightarrow> bool" where
  "uart_inv (r, s) = (romload_inv r \<and> uart_dr s)"

lemma uart_ring_cong: "rx_tail s = rx_tail t \<Longrightarrow> rx_count s = rx_count t \<Longrightarrow> rx_head s = rx_head t \<Longrightarrow> uart_ring s = uart_ring t"
  by (simp add: uart_ring_def)

lemma uart_dr_upd [simp]:
  "uart_dr (s\<lparr>trace := tr\<rparr>) = uart_dr s" "uart_dr (s\<lparr>uirq := b\<rparr>) = uart_dr s" "uart_dr (s\<lparr>iir := i\<rparr>) = uart_dr s"
  "uart_dr (s\<lparr>rx_poll_timer := d\<rparr>) = uart_dr s" "uart_dr (s\<lparr>wakeup_pending := b\<rparr>) = uart_dr s"
  "uart_dr (s\<lparr>ier := v\<rparr>) = uart_dr s" "uart_dr (s\<lparr>scr := v\<rparr>) = uart_dr s" "uart_dr (s\<lparr>mdr1 := v\<rparr>) = uart_dr s"
  "uart_dr (s\<lparr>lcr := v\<rparr>) = uart_dr s" "uart_dr (s\<lparr>mcr := v\<rparr>) = uart_dr s" "uart_dr (s\<lparr>fcr := v\<rparr>) = uart_dr s"
  "uart_dr (s\<lparr>spr := v\<rparr>) = uart_dr s" "uart_dr (s\<lparr>dll := v\<rparr>) = uart_dr s" "uart_dr (s\<lparr>dlh := v\<rparr>) = uart_dr s"
  "uart_dr (s\<lparr>efr := v\<rparr>) = uart_dr s" "uart_dr (s\<lparr>xon1 := v\<rparr>) = uart_dr s" "uart_dr (s\<lparr>xon2 := v\<rparr>) = uart_dr s"
  "uart_dr (s\<lparr>xoff1 := v\<rparr>) = uart_dr s" "uart_dr (s\<lparr>xoff2 := v\<rparr>) = uart_dr s" "uart_dr (s\<lparr>ssr := v\<rparr>) = uart_dr s"
  "uart_dr (s\<lparr>thr_empty_pending := b\<rparr>) = uart_dr s" "uart_dr (s\<lparr>tx_empty_reads := v\<rparr>) = uart_dr s"
  by (simp_all add: uart_dr_def uart_ring_def)

lemma uart_dr_emit [simp]: "uart_dr (uart_emit s e) = uart_dr s"
  by (simp add: uart_emit_def)

lemma uart_dr_update [simp]: "uart_dr (calypso_uart_update_irq s) = uart_dr s"
  by (simp add: update_irq_eq)

lemma uart_dr_set:
  "uart_ring s \<Longrightarrow> 0 < rx_count s \<Longrightarrow> uart_dr (s\<lparr>lsr := set_bit 0 (lsr s)\<rparr>)"
  "uart_ring s \<Longrightarrow> rx_count s = 0 \<Longrightarrow> uart_dr (s\<lparr>lsr := unset_bit 0 (lsr s)\<rparr>)"
  by (simp_all add: uart_dr_def uart_ring_def bit_simps)

lemma uart_dr_lsr [simp]:
  "0 < n \<Longrightarrow> uart_dr (s\<lparr>lsr := set_bit n (lsr s)\<rparr>) = uart_dr s" "0 < n \<Longrightarrow> uart_dr (s\<lparr>lsr := unset_bit n (lsr s)\<rparr>) = uart_dr s"
  by (simp_all add: uart_dr_def uart_ring_def bit_simps)

lemma fifo_push_all_empty:
  "uart_ring s \<Longrightarrow> rx_count (foldl fifo_push s buf) = 0 \<Longrightarrow> buf = [] \<and> rx_count s = 0"
proof -
  assume "uart_ring s" "rx_count (foldl fifo_push s buf) = 0"
  then have "rx_bytes (foldl fifo_push s buf) = []" by (simp add: rx_bytes_def)
  then have "rx_bytes s @ take (8192 - length (rx_bytes s)) buf = []"
    using \<open>uart_ring s\<close> by (simp only: uart_q.content_push_all)
  moreover have "length (rx_bytes s) = rx_count s" by (simp add: rx_bytes_def)
  ultimately show ?thesis by auto
qed

lemma uart_dr_inject [inv_intros]: "uart_dr s \<Longrightarrow> uart_dr (calypso_uart_inject_raw s buf)"
  using uart_q.finv_push_all [of s buf] fifo_push_all_empty [of s buf]
  by (auto simp: calypso_uart_inject_raw_def uart_dr_set uart_dr_def [of s] Let_def)

lemma uart_dr_pop:
  assumes "uart_dr s"
  shows "uart_dr (let s1 = snd (fifo_pop s) in if rx_count s1 > 0 then s1\<lparr>lsr := set_bit 0 (lsr s1)\<rparr>
    else s1\<lparr>lsr := unset_bit 0 (lsr s1)\<rparr>)"
  using assms uart_q.finv_pop [of s] by (simp add: uart_dr_set uart_dr_def [of s] Let_def)

lemma uart_dr_read [inv_intros]: "uart_dr s \<Longrightarrow> uart_dr (snd (calypso_uart_read s offset))"
  using uart_dr_pop [of s] by (auto simp: calypso_uart_read_def case_prod_beta Let_def)

lemma uart_dr_write [inv_intros]: "uart_dr s \<Longrightarrow> uart_dr (calypso_uart_write s offset v)"
proof -
  assume s: "uart_dr s"
  have "uart_dr (uart_write_thr s v)" 
    using s by (simp add: uart_write_thr_def uart_emit_def uart_dr_def uart_ring_def bit_simps Let_def)
  moreover have "uart_dr (uart_write_ier s v)" using s by (simp add: uart_write_ier_def Let_def)
  moreover have "uart_dr (uart_write_fcr s v)"
    using s by (simp add: uart_write_fcr_def fifo_reset_def uart_dr_def uart_ring_def bit_simps Let_def)
  ultimately show ?thesis using s by (simp add: calypso_uart_write_def Let_def)
qed

lemma romload_block_len [simp]: "0 < 8 + uint (x :: u16)"
  by (simp add: add_pos_nonneg)

lemma romload_eat_inv:
  assumes "romload_stub_eat r s b = (e, r', s')"
  shows "romload_inv r \<Longrightarrow> romload_inv r'" and "uart_dr s \<Longrightarrow> uart_dr s'"
  using assms
  by (auto simp: romload_stub_eat_def romload_countdown_def romload_inv_def Let_def
      split: RomloadState.splits if_splits)

lemma romload_filter_inv:
  "romload_filter r s bs = (r', s', pt) \<Longrightarrow> romload_inv r \<Longrightarrow> uart_dr s \<Longrightarrow> romload_inv r' \<and> uart_dr s'"
proof (induction bs arbitrary: r s pt)
  case (Cons b bs)
  then show ?case
    using romload_eat_inv [of r s b] by (auto simp: Let_def split: prod.splits)
qed simp

lemma uart_inv_receive [inv_intros]:
  assumes "uart_inv (r, s)"
  shows "uart_inv (calypso_uart_receive r s buf)"
proof -
  have push: "uart_dr (uart_set_dr (foldl fifo_push s buf))"
    using assms uart_q.finv_push_all [of s buf] fifo_push_all_empty [of s buf]
    by (auto simp: uart_set_dr_def uart_dr_set uart_dr_def [of s])
  have inj: "uart_dr (uart_set_dr (calypso_uart_inject_raw s buf))"
    using uart_dr_inject [of s buf] assms by (auto simp: uart_set_dr_def uart_dr_def uart_ring_def bit_simps)
  obtain r1 s1 pt where f: "romload_filter r s buf = (r1, s1, pt)" by (cases "romload_filter r s buf")
  then have "romload_inv r1 \<and> uart_dr s1" using romload_filter_inv assms by simp
  then show ?thesis
    using assms push inj by (simp add: calypso_uart_receive_def f Let_def uart_dr_inject)
qed

lemma uart_dr_misc [inv_intros]:
  "uart_dr s \<Longrightarrow> uart_dr (calypso_uart_rx_poll s now)" "uart_dr s \<Longrightarrow> uart_dr (calypso_uart_kick_rx s)"
  "uart_dr s \<Longrightarrow> uart_dr (calypso_uart_kick_tx s)" "uart_dr s \<Longrightarrow> uart_dr (calypso_uart_poll_backend s)"
  "uart_dr s \<Longrightarrow> uart_dr (calypso_uart_force_init s)" "uart_dr (calypso_uart_reset_state s)"
  by (simp_all add: calypso_uart_rx_poll_def calypso_uart_kick_rx_def calypso_uart_kick_tx_def uart_irq_set_def
      calypso_uart_poll_backend_def calypso_uart_force_init_def Let_def)
     (simp add: calypso_uart_reset_state_def fifo_reset_def uart_dr_def uart_ring_def)

lemma uart_inv_init: "uart_inv (romload_init, uart_init lbl)"
  by (simp add: uart_init_def inv_intros romload_init_def romload_inv_def)

lemma uart_inv_step: "uart_inv rs \<Longrightarrow> uart_inv (uart_step rs i)"
  by (cases rs; cases i) (simp_all add: inv_intros del: uart_inv.simps, simp_all add: inv_intros
      calypso_uart_romload_passthrough_def romload_inv_def)

interpretation uart_dev: device uart_ok uart_step "(romload_init, uart_init lbl)" uart_inv for lbl
  using uart_inv_init uart_inv_step by unfold_locales blast+

section \<open>Receiving\<close>

text \<open>A read of RBR outside the divisor latch mode is the pop of the same queue.\<close>

definition uart_rbr :: "uart \<Rightarrow> u8 \<times> uart" where
  "uart_rbr s = (let (v, s') = calypso_uart_read s 0 in (ucast v, s'))"

lemma uart_rbr_pop:
  "\<not> bit (lcr s) 7 \<Longrightarrow> fst (uart_rbr s) = fst (fifo_pop s)"
  "\<not> bit (lcr s) 7 \<Longrightarrow> rx_bytes (snd (uart_rbr s)) = rx_bytes (snd (fifo_pop s))"
  "\<not> bit (lcr s) 7 \<Longrightarrow> uart_ring (snd (uart_rbr s)) = uart_ring (snd (fifo_pop s))"
  "\<not> bit (lcr s) 7 \<Longrightarrow> lcr (snd (uart_rbr s)) = lcr s"
  by (auto simp: uart_rbr_def calypso_uart_read_def case_prod_beta Let_def rx_bytes_def uart_ring_def fifo_pop_def
      unsigned_ucast_eq take_bit_word_eq_self)

interpretation uart_rbr_q: bounded_fifo 8192 rx_bytes "\<lambda>s. uart_ring s \<and> \<not> bit (lcr s) 7" fifo_push uart_rbr
proof
  fix s :: uart and x
  assume inv: "uart_ring s \<and> \<not> bit (lcr s) 7"
  moreover have "lcr (fifo_push s x) = lcr s" by (simp add: fifo_push_def)
  ultimately show "uart_ring (fifo_push s x) \<and> \<not> bit (lcr (fifo_push s x)) 7" by (simp add: uart_q.finv_push)
qed (auto simp: uart_rbr_pop uart_q.finv_pop uart_q.content_pop uart_q.content_push uart_q.value_pop uart_q.content_bound)

lemma rx_bytes_inject:
  assumes "uart_ring s"
  shows "rx_bytes (calypso_uart_inject_raw s buf) = rx_bytes s @ take (8192 - length (rx_bytes s)) buf"
    and "uart_ring (calypso_uart_inject_raw s buf)" and "lcr (calypso_uart_inject_raw s buf) = lcr s"
proof -
  have "lcr (foldl fifo_push s buf) = lcr s"
    by (induction buf arbitrary: s) (simp_all add: fifo_push_def)
  then show "lcr (calypso_uart_inject_raw s buf) = lcr s" by (simp add: calypso_uart_inject_raw_def Let_def)
  have "rx_bytes (calypso_uart_inject_raw s buf) = rx_bytes (foldl fifo_push s buf)"
    and "uart_ring (calypso_uart_inject_raw s buf) = uart_ring (foldl fifo_push s buf)"
    by (simp_all add: calypso_uart_inject_raw_def rx_bytes_def uart_ring_def Let_def)
  then show "rx_bytes (calypso_uart_inject_raw s buf) = rx_bytes s @ take (8192 - length (rx_bytes s)) buf"
    and "uart_ring (calypso_uart_inject_raw s buf)"
    using assms by (simp_all add: uart_q.content_push_all uart_q.finv_push_all)
qed

lemma romload_filter_passthrough: "rstate r = ROM_PASSTHROUGH \<Longrightarrow> romload_filter r s bs = (r, s, bs)"
  by (induction bs) (simp_all add: romload_stub_eat_def)

lemma fifo_push_lcr: "lcr (foldl fifo_push s bs) = lcr s"
  by (induction bs arbitrary: s) (simp_all add: fifo_push_def)

text \<open>C7. Reception is lossless and in order: on either port, with the divisor latch off and, on the modem port, the
  loader stub in pass-through, the bytes a backend delivers within the announced space are what the firmware reads from
  RBR, after those already queued.\<close>

theorem uart_receive_in_order:
  assumes "reaches uart_ok uart_step (romload_init, uart_init lbl) (r, s)"
    and "label s = Some ''modem'' \<longrightarrow> rstate r = ROM_PASSTHROUGH" and "\<not> bit (lcr s) 7"
    and "length bs \<le> calypso_uart_can_receive s"
  shows "pops uart_rbr (length (rx_bytes s) + length bs) (snd (calypso_uart_receive r s bs)) = rx_bytes s @ bs"
proof -
  have "uart_inv (r, s)" using assms(1) by (rule uart_dev.reachable_invar)
  then have inv: "uart_ring s" by (simp add: uart_dr_def)
  let ?s = "snd (calypso_uart_receive r s bs)"
  have fit: "take (8192 - length (rx_bytes s)) bs = bs"
    using assms(4) by (simp add: calypso_uart_can_receive_def rx_bytes_def)
  have emit: "rx_bytes (uart_emit t e) = rx_bytes t" "uart_ring (uart_emit t e) = uart_ring t" "lcr (uart_emit t e) = lcr t" for t e
    by (simp_all add: uart_emit_def rx_bytes_def uart_ring_def)
  have push: "rx_bytes (foldl fifo_push s bs) = rx_bytes s @ bs" "uart_ring (foldl fifo_push s bs)" "lcr (foldl fifo_push s bs) = lcr s"
    using inv fit uart_q.content_push_all [OF inv, of bs] uart_q.finv_push_all [OF inv, of bs] fifo_push_lcr [of s bs] by simp_all
  have dr: "rx_bytes (uart_set_dr t) = rx_bytes t" "uart_ring (uart_set_dr t) = uart_ring t" "lcr (uart_set_dr t) = lcr t" for t
    by (simp_all add: uart_set_dr_def rx_bytes_def uart_ring_def)
  have upd: "rx_bytes (calypso_uart_update_irq t) = rx_bytes t" "uart_ring (calypso_uart_update_irq t) = uart_ring t" for t
    by (simp_all add: rx_bytes_def uart_ring_def)
  have c: "rx_bytes ?s = rx_bytes s @ bs" and "uart_ring ?s" and "lcr ?s = lcr s"
    using inv fit push assms(2) by (auto simp: calypso_uart_receive_def romload_filter_passthrough emit dr upd rx_bytes_inject)
  then have "pops uart_rbr (length (rx_bytes s @ bs)) ?s = take (length (rx_bytes s @ bs)) (rx_bytes ?s)"
    using assms(3) by (intro uart_rbr_q.pops_content) simp_all
  then show ?thesis by (simp add: c)
qed

definition uart_modem_flash :: "romload \<times> uart" where
  "uart_modem_flash = foldl uart_step (romload_init, uart_init (Some ''modem'')) [UartPassthrough, UartReceive [0x41, 0x42]]"

theorem uart_receive_in_order_witness:
  "pops uart_rbr 4 (snd (calypso_uart_receive (fst uart_modem_flash) (snd uart_modem_flash) [0x43, 0x7E])) = [0x41, 0x42, 0x43, 0x7E]"
proof -
  have "reaches uart_ok uart_step (romload_init, uart_init (Some ''modem'')) (fst uart_modem_flash, snd uart_modem_flash)"
    by (rule run_reaches [of _ _ _ "[UartPassthrough, UartReceive [0x41, 0x42]]"])
      (simp add: uart_modem_flash_def calypso_uart_can_receive_def uart_init_def calypso_uart_reset_state_def fifo_reset_def)
  moreover have "label (snd uart_modem_flash) = Some ''modem''" "rstate (fst uart_modem_flash) = ROM_PASSTHROUGH"
    "\<not> bit (lcr (snd uart_modem_flash)) 7" "rx_bytes (snd uart_modem_flash) = [0x41, 0x42]" "rx_count (snd uart_modem_flash) = 2"
    by (simp_all add: uart_modem_flash_def uart_init_def calypso_uart_realize_def calypso_uart_reset_state_def
        fifo_reset_def romload_init_def calypso_uart_romload_passthrough_def calypso_uart_receive_def
        romload_stub_eat_def calypso_uart_inject_raw_def fifo_push_def uart_emit_def update_irq_eq rx_bytes_def
        ring_list_def upt_rec Let_def)
  ultimately show ?thesis
    using uart_receive_in_order [of "Some ''modem''" "fst uart_modem_flash" "snd uart_modem_flash" "[0x43, 0x7E]"]
    by (simp add: calypso_uart_can_receive_def numeral_eq_Suc)
qed

section \<open>The download protocol of the loader\<close>

lemma romload_filter_append:
  "romload_filter r s (xs @ ys) =
     (let (r1, s1, p1) = romload_filter r s xs; (r2, s2, p2) = romload_filter r1 s1 ys in (r2, s2, p1 @ p2))"
  by (induction xs arbitrary: r s) (auto simp: Let_def split: prod.splits)

lemma romload_filter_then:
  "romload_filter r s xs = (r1, s1, []) \<Longrightarrow> romload_filter r s (xs @ ys) = romload_filter r1 s1 ys"
  by (simp add: romload_filter_append)

text \<open>In the data states the stub counts bytes, whatever they are.\<close>

lemma romload_filter_block:
  assumes "rstate r = ROM_BLOCK_DATA" and "needed r = int (length bs)" and "bs \<noteq> []"
  shows "romload_filter r s bs = (r\<lparr>rstate := ROM_IDLE, needed := 0\<rparr>, uart_emit s (UChrWrite [0x3e, 0x77]), [])"
  using assms
proof (induction bs arbitrary: r)
  case (Cons b bs)
  then show ?case
    by (cases "bs = []") (simp_all add: romload_stub_eat_def romload_countdown_def Let_def)
qed simp

lemma romload_filter_branch:
  assumes "rstate r = ROM_BR_DATA" and "needed r = int (length bs)" and "bs \<noteq> []"
  shows "romload_filter r s bs = (r\<lparr>rstate := ROM_PASSTHROUGH, needed := 0\<rparr>, uart_emit s (UChrWrite [0x3e, 0x62]), [])"
  using assms
proof (induction bs arbitrary: r)
  case (Cons b bs)
  then show ?case
    by (cases "bs = []") (simp_all add: romload_stub_eat_def romload_countdown_def Let_def)
qed simp

lemma romload_filter_blocks:
  assumes "rstate r = ROM_IDLE" and "payload_size r = 1024" and "\<forall>b \<in> set blocks. length b = 1032"
  shows "\<exists>n. romload_filter r s (concat (map (\<lambda>b. [0x3c, 0x77] @ b) blocks)) =
     (r\<lparr>needed := n\<rparr>, s\<lparr>trace := trace s @ replicate (length blocks) (UChrWrite [0x3e, 0x77])\<rparr>, [])"
  using assms
proof (induction blocks arbitrary: r s)
  case Nil
  show ?case by (auto intro: exI [of _ "needed r"])
next
  case (Cons b blocks)
  let ?r = "r\<lparr>rstate := ROM_BLOCK_DATA, needed := 1032\<rparr>"
  have "romload_filter r s ([0x3c, 0x77] @ b) = (r\<lparr>needed := 0\<rparr>, uart_emit s (UChrWrite [0x3e, 0x77]), [])"
    using Cons.prems romload_filter_block [of ?r b s]
    by (cases "b = []") (auto simp: romload_filter_append romload_stub_eat_def)
  with Cons.IH [of "r\<lparr>needed := 0\<rparr>" "uart_emit s (UChrWrite [0x3e, 0x77])"] Cons.prems show ?case
    by (auto simp: romload_filter_append [of r s "60 # 119 # b", simplified] uart_emit_def)
qed

text \<open>C16. The download protocol: the stub answers the identification, acknowledges every block of
  8 + 1024 bytes once, whatever the bytes, echoes the checksum byte and acknowledges the branch; none of
  those bytes reaches the firmware, and every byte after the branch does.\<close>

theorem romload_session:
  assumes "rstate r = ROM_IDLE" and "payload_size r = 1024" and "\<forall>b \<in> set blocks. length b = 1032"
    and "length addr = 4"
  shows "\<exists>n. romload_filter r s ([0x3c, 0x69] @ concat (map (\<lambda>b. [0x3c, 0x77] @ b) blocks)
              @ [0x3c, 0x63, ck] @ [0x3c, 0x62] @ addr @ rest) =
     (r\<lparr>rstate := ROM_PASSTHROUGH, needed := n\<rparr>,
      s\<lparr>trace := trace s @ [UChrWrite [0x3e, 0x69, 0x3e, 0x70, 0x0a, 0x04]]
          @ replicate (length blocks) (UChrWrite [0x3e, 0x77])
          @ [UChrWrite [0x3e, 0x63, ck], UChrWrite [0x3e, 0x62]]\<rparr>, rest)"
proof -
  define s1 where "s1 = uart_emit s (UChrWrite [0x3e, 0x69, 0x3e, 0x70, 0x0a, 0x04])"
  have ident: "romload_filter r s [0x3c, 0x69] = (r, s1, [])"
    using assms by (simp add: romload_stub_eat_def s1_def)
  obtain n where blocks: "romload_filter r s1 (concat (map (\<lambda>b. [0x3c, 0x77] @ b) blocks)) =
     (r\<lparr>needed := n\<rparr>, s1\<lparr>trace := trace s1 @ replicate (length blocks) (UChrWrite [0x3e, 0x77])\<rparr>, [])"
    using romload_filter_blocks [OF assms(1-3), of s1] by blast
  have check: "romload_filter (r\<lparr>needed := n\<rparr>) t [0x3c, 0x63, ck] = (r\<lparr>needed := 0\<rparr>, uart_emit t (UChrWrite [0x3e, 0x63, ck]), [])" for t
    using assms by (simp add: romload_stub_eat_def romload_countdown_def)
  have branch: "romload_filter (r\<lparr>needed := 0\<rparr>) t ([0x3c, 0x62] @ addr) =
      (r\<lparr>rstate := ROM_PASSTHROUGH, needed := 0\<rparr>, uart_emit t (UChrWrite [0x3e, 0x62]), [])" for t
    using assms romload_filter_branch [of "r\<lparr>rstate := ROM_BR_DATA, needed := 4\<rparr>" addr t]
    by (cases "addr = []") (auto simp: romload_filter_append romload_stub_eat_def)
  show ?thesis
    unfolding romload_filter_then [OF ident] romload_filter_then [OF blocks] romload_filter_then [OF check]
      romload_filter_then [OF branch, unfolded append_assoc]
    by (auto simp: romload_filter_passthrough s1_def uart_emit_def)
qed

theorem romload_session_witness:
  "\<exists>n. romload_filter romload_init (uart_init None) ([0x3c, 0x69] @ concat (map (\<lambda>b. [0x3c, 0x77] @ b) [replicate 1032 0x3c])
        @ [0x3c, 0x63, 0x55] @ [0x3c, 0x62] @ [0x00, 0x82, 0x00, 0x00] @ [0x41]) =
     (romload_init\<lparr>rstate := ROM_PASSTHROUGH, needed := n\<rparr>,
      (uart_init None)\<lparr>trace := trace (uart_init None) @ [UChrWrite [0x3e, 0x69, 0x3e, 0x70, 0x0a, 0x04]]
          @ replicate (length [replicate 1032 (0x3c :: u8)]) (UChrWrite [0x3e, 0x77])
          @ [UChrWrite [0x3e, 0x63, 0x55], UChrWrite [0x3e, 0x62]]\<rparr>, [0x41])"
  by (rule romload_session) (simp_all add: romload_init_def)

section \<open>The interrupt line\<close>

text \<open>The line and IIR are what the registers ask for.\<close>

definition uart_irq_ok :: "uart \<Rightarrow> bool" where
  "uart_irq_ok s \<longleftrightarrow> uirq s = uart_want s \<and> iir s = uart_iir s"

text \<open>
  The two accesses that change the cause of the interrupt without driving the line: reading LSR
  while its overrun flag is the cause, and a reset while the line is high.
\<close>

fun uart_drives_line :: "romload \<times> uart \<Rightarrow> uart_in \<Rightarrow> bool" where
  "uart_drives_line (r, s) (UartRead offset) = (\<not> (offset = 5 \<and> lcr s \<noteq> 0xBF \<and> bit (lsr s) 1 \<and> bit (ier s) 2))"
| "uart_drives_line (r, s) UartReset = (\<not> uirq s)"
| "uart_drives_line (r, s) _ = True"

lemma uart_irq_ok_update [simp]: "uart_irq_ok (calypso_uart_update_irq s)"
  by (simp add: uart_irq_ok_def update_irq_eq uart_want_def uart_iir_def)

lemma uart_irq_ok_emit [simp]: "uart_irq_ok (uart_emit s e) = uart_irq_ok s"
  by (simp add: uart_irq_ok_def uart_emit_def uart_want_def uart_iir_def)

lemma uart_irq_ok_filter: "romload_filter r s bs = (r', s', pt) \<Longrightarrow> uart_irq_ok s' = uart_irq_ok s"
proof (induction bs arbitrary: r s pt)
  case (Cons b bs)
  obtain e r1 s1 where 1: "romload_stub_eat r s b = (e, r1, s1)" by (cases "romload_stub_eat r s b")
  then have "uart_irq_ok s1 = uart_irq_ok s"
    by (auto simp: romload_stub_eat_def romload_countdown_def Let_def split: RomloadState.splits if_splits)
  with Cons 1 show ?case by (auto simp: Let_def split: prod.splits)
qed simp

lemma uart_irq_ok_inject: "uart_dr s \<Longrightarrow> uart_irq_ok s \<Longrightarrow> uart_irq_ok (calypso_uart_inject_raw s buf)"
  using fifo_push_all_empty [of s buf] by (auto simp: calypso_uart_inject_raw_def Let_def uart_dr_def)

lemma uart_inv_dr: "uart_inv (r, s) \<Longrightarrow> uart_dr s"
  by simp

lemma uart_irq_ok_receive:
  assumes "uart_inv (r, s)" and "uart_irq_ok s"
  shows "uart_irq_ok (snd (calypso_uart_receive r s buf))"
proof -
  obtain r1 s1 pt where f: "romload_filter r s buf = (r1, s1, pt)" by (cases "romload_filter r s buf")
  then have "uart_irq_ok s1" and "uart_dr s1"
    using uart_irq_ok_filter romload_filter_inv assms by auto
  then show ?thesis by (simp add: calypso_uart_receive_def f uart_irq_ok_inject Let_def)
qed

lemma uart_irq_ok_upd [simp]:
  "uart_irq_ok (s\<lparr>dll := v\<rparr>) = uart_irq_ok s" "uart_irq_ok (s\<lparr>dlh := v\<rparr>) = uart_irq_ok s"
  "uart_irq_ok (s\<lparr>efr := v\<rparr>) = uart_irq_ok s" "uart_irq_ok (s\<lparr>lcr := v\<rparr>) = uart_irq_ok s"
  "uart_irq_ok (s\<lparr>xon1 := v\<rparr>) = uart_irq_ok s" "uart_irq_ok (s\<lparr>mcr := v\<rparr>) = uart_irq_ok s"
  "uart_irq_ok (s\<lparr>xon2 := v\<rparr>) = uart_irq_ok s" "uart_irq_ok (s\<lparr>xoff1 := v\<rparr>) = uart_irq_ok s"
  "uart_irq_ok (s\<lparr>xoff2 := v\<rparr>) = uart_irq_ok s" "uart_irq_ok (s\<lparr>spr := v\<rparr>) = uart_irq_ok s"
  "uart_irq_ok (s\<lparr>mdr1 := v\<rparr>) = uart_irq_ok s" "uart_irq_ok (s\<lparr>ssr := v\<rparr>) = uart_irq_ok s"
  "uart_irq_ok (s\<lparr>tx_empty_reads := v\<rparr>) = uart_irq_ok s"
  by (simp_all add: uart_irq_ok_def uart_want_def uart_iir_def)

lemma uart_irq_ok_writes [simp]:
  "uart_irq_ok (uart_write_thr s v)" "uart_irq_ok (uart_write_ier s v)" "uart_irq_ok (uart_write_fcr s v)"
  unfolding uart_write_thr_def uart_write_ier_def uart_write_fcr_def Let_def by (rule uart_irq_ok_update)+

lemma uart_irq_ok_write: "uart_irq_ok s \<Longrightarrow> uart_irq_ok (calypso_uart_write s offset v)"
  by (simp add: calypso_uart_write_def Let_def)

lemma uart_irq_ok_read:
  assumes "uart_irq_ok s" and "uart_drives_line (r, s) (UartRead offset)"
  shows "uart_irq_ok (snd (calypso_uart_read s offset))"
proof (cases "offset = 5 \<and> lcr s \<noteq> 0xBF")
  case True
  then have "uart_iir (s\<lparr>lsr := unset_bit 1 (lsr s)\<rparr>) = uart_iir s"
    using assms(2) by (auto simp: uart_iir_def bit_simps)
  then show ?thesis using True assms(1) by (simp add: calypso_uart_read_def uart_irq_ok_def uart_want_def)
next
  case False
  then show ?thesis using assms(1) by (auto simp: calypso_uart_read_def case_prod_beta Let_def)
qed

lemma uart_irq_ok_misc:
  "uart_irq_ok s \<Longrightarrow> uart_irq_ok (calypso_uart_rx_poll s now)" "uart_irq_ok s \<Longrightarrow> uart_irq_ok (calypso_uart_kick_rx s)"
  "uart_irq_ok (calypso_uart_kick_tx s)" "uart_irq_ok s \<Longrightarrow> uart_irq_ok (calypso_uart_poll_backend s)"
  "uart_irq_ok (calypso_uart_force_init s)" "\<not> uirq s \<Longrightarrow> uart_irq_ok (calypso_uart_reset_state s)"
  by (simp_all add: calypso_uart_kick_rx_def calypso_uart_kick_tx_def calypso_uart_poll_backend_def
      calypso_uart_force_init_def Let_def)
     (simp_all add: calypso_uart_rx_poll_def calypso_uart_reset_state_def fifo_reset_def uart_emit_def
      uart_irq_ok_def uart_want_def uart_iir_def)

interpretation uart_irq: device "\<lambda>rs i. uart_ok rs i \<and> uart_drives_line rs i" uart_step "(romload_init, uart_init lbl)"
  "\<lambda>rs. uart_inv rs \<and> uart_irq_ok (snd rs)" for lbl
proof
  show "uart_inv (romload_init, uart_init lbl) \<and> uart_irq_ok (snd (romload_init, uart_init lbl))"
    using uart_inv_init [of lbl] uart_irq_ok_misc(6) [of "calypso_uart_realize lbl True 0"]
    by (simp add: uart_init_def calypso_uart_realize_def)
  fix rs i
  assume "uart_inv rs \<and> uart_irq_ok (snd rs)" and "uart_ok rs i \<and> uart_drives_line rs i"
  then show "uart_inv (uart_step rs i) \<and> uart_irq_ok (snd (uart_step rs i))"
    using uart_inv_step [of rs i]
    by (cases rs; cases i) (auto simp: uart_irq_ok_receive uart_irq_ok_inject uart_irq_ok_misc uart_irq_ok_write
        intro: uart_irq_ok_read dest: uart_inv_dr simp del: uart_inv.simps)
qed

text \<open>C22. The interrupt line is right: after any history in which LSR is not read while an enabled overrun
  is its cause and no reset comes while it is high, the line is asserted exactly when a cause is enabled,
  and IIR names the cause of highest priority.\<close>

theorem uart_irq_line:
  assumes "reaches (\<lambda>rs i. uart_ok rs i \<and> uart_drives_line rs i) uart_step (romload_init, uart_init lbl) (r, s)"
  shows "(uirq s \<longleftrightarrow> (bit (ier s) 2 \<and> bit (lsr s) 1) \<or> (bit (ier s) 0 \<and> rx_count s > 0)
            \<or> (bit (ier s) 1 \<and> thr_empty_pending s) \<or> (wakeup_pending s \<and> bit (scr s) 4))
    \<and> iir s = (if bit (ier s) 2 \<and> bit (lsr s) 1 then 6 else if bit (ier s) 0 \<and> rx_count s > 0 then 4
               else if bit (ier s) 1 \<and> thr_empty_pending s then 2 else 1)"
proof -
  have "uart_irq_ok s" and "uart_dr s" using uart_irq.reachable_invar [OF assms] by auto
  then show ?thesis by (auto simp: uart_irq_ok_def uart_want_def uart_iir_def uart_dr_def)
qed

definition uart_rx_state :: "romload \<times> uart" where
  "uart_rx_state = foldl uart_step (romload_init, uart_init (Some ''irda'')) [UartWrite 1 1, UartReceive [0x41]]"

theorem uart_irq_line_witness:
  "uirq (snd uart_rx_state) \<and> iir (snd uart_rx_state) = 4"
proof -
  have "reaches (\<lambda>rs i. uart_ok rs i \<and> uart_drives_line rs i) uart_step (romload_init, uart_init (Some ''irda''))
      (fst uart_rx_state, snd uart_rx_state)"
    by (rule run_reaches [of _ _ _ "[UartWrite 1 1, UartReceive [0x41]]"])
      (simp add: uart_rx_state_def calypso_uart_can_receive_def calypso_uart_write_def uart_write_ier_def uart_init_def
        calypso_uart_realize_def calypso_uart_reset_state_def fifo_reset_def Let_def)
  moreover have "ier (snd uart_rx_state) = 1" "rx_count (snd uart_rx_state) = 1"
    by (simp_all add: uart_rx_state_def calypso_uart_write_def uart_write_ier_def uart_init_def calypso_uart_receive_def
        calypso_uart_realize_def calypso_uart_reset_state_def fifo_reset_def fifo_push_def uart_set_dr_def Let_def)
  ultimately show ?thesis
    using uart_irq_line [of "Some ''irda''" "fst uart_rx_state" "snd uart_rx_state"] by simp
qed

text \<open>Overrun: more bytes than the ring has room for set the overrun flag.\<close>

lemma fifo_push_all_oe:
  "uart_ring s \<Longrightarrow> bit (lsr (foldl fifo_push s buf)) 1 = (bit (lsr s) 1 \<or> 8192 < rx_count s + length buf)"
proof (induction buf arbitrary: s)
  case Nil
  then show ?case by (simp add: uart_ring_def)
next
  case (Cons b buf)
  then show ?case
    using uart_q.finv_push [of s b] by (auto simp: fifo_push_def bit_simps uart_ring_def)
qed

text \<open>C31. Reading LSR clears an overrun but not its interrupt: when the overrun is the only enabled cause,
  the line stays asserted and IIR keeps reporting a line-status interrupt that has no cause any more.\<close>

theorem uart_lsr_read_stale:
  assumes "reaches (\<lambda>rs i. uart_ok rs i \<and> uart_drives_line rs i) uart_step (romload_init, uart_init lbl) (r, s)"
    and "lcr s \<noteq> 0xBF" and "ier s = 4" and "bit (lsr s) 1"
  shows "let s' = snd (calypso_uart_read s 5)
    in uirq s' \<and> iir s' = 6 \<and> \<not> bit (lsr s') 1 \<and> uart_iir s' = 1"
proof -
  have "uart_irq_ok s" using uart_irq.reachable_invar [OF assms(1)] by auto
  then have "uirq s" and "iir s = 6" using assms by (simp_all add: uart_irq_ok_def uart_want_def uart_iir_def)
  then show ?thesis using assms by (simp add: calypso_uart_read_def uart_iir_def bit_simps)
qed

definition uart_overrun :: "romload \<times> uart" where
  "uart_overrun = foldl uart_step (romload_init, uart_init None) [UartWrite 1 4, UartInject (replicate 8193 0)]"

theorem uart_lsr_read_stale_witness:
  "let s' = snd (calypso_uart_read (snd uart_overrun) 5)
   in uirq s' \<and> iir s' = 6 \<and> \<not> bit (lsr s') 1 \<and> uart_iir s' = 1"
proof -
  let ?s0 = "calypso_uart_write (uart_init None) 1 4"
  have s: "uart_overrun = (romload_init, calypso_uart_inject_raw ?s0 (replicate 8193 0))"
    by (simp add: uart_overrun_def)
  have s0: "uart_ring ?s0" "ier ?s0 = 4" "lcr ?s0 = 0"
    by (simp_all add: calypso_uart_write_def uart_write_ier_def uart_init_def calypso_uart_reset_state_def
        calypso_uart_realize_def fifo_reset_def uart_ring_def Let_def)
  have ier: "ier (calypso_uart_inject_raw t buf) = ier t" for t buf
  proof -
    have "ier (foldl fifo_push t buf) = ier t" by (induction buf arbitrary: t) (simp_all add: fifo_push_def)
    then show ?thesis by (simp add: calypso_uart_inject_raw_def Let_def)
  qed
  have "bit (lsr (calypso_uart_inject_raw ?s0 (replicate 8193 0))) 1"
    using fifo_push_all_oe [OF s0(1), of "replicate 8193 0"] by (simp add: calypso_uart_inject_raw_def Let_def bit_simps)
  moreover have "reaches (\<lambda>rs i. uart_ok rs i \<and> uart_drives_line rs i) uart_step (romload_init, uart_init None) uart_overrun"
    by (rule run_reaches [of _ _ _ "[UartWrite 1 4, UartInject (replicate 8193 0)]"]) (simp add: s)
  ultimately show ?thesis
    using uart_lsr_read_stale [of None "fst uart_overrun" "snd uart_overrun"] s0
    by (simp add: s ier rx_bytes_inject)
qed

end
