(* ===== verification/Dcch_Tap.thy ===== *)
theory Dcch_Tap
  imports Sercomm
begin

text \<open>
  The dedicated-channel tap, \<open>hw/arm/calypso/calypso_dcch_tap.c\<close>: it watches the sercomm stream the
  firmware sends, finds the channel of the L1CTL data messages and publishes it, on change, in the
  shared file \<open>/dev/shm/calypso_dcch_cfg\<close> and to the transceiver.

  The buffer is the list of its \<open>len\<close> valid bytes (no byte beyond \<open>len\<close> is read). What leaves the tap
  is appended to \<open>tap_trace\<close>. Whether the shared file can be opened and written is up to the system: it
  is the parameter \<open>fs\<close>, indexed by the sequence number of the publication. Log lines are left out.
\<close>

section \<open>State and operations\<close>

datatype shm_result = ShmOpenFails | ShmWriteFails | ShmWritten

datatype tap_ev =
    TapShmTrunc
  | TapShm "u8 list"
  | TapTrxDcch int int u8
  | TapRachConf u32

record pdtch_stats =
  donnees :: u32
  autre_tfi :: u32
  crc_ko :: u32
  ptcch :: u32
  ul_cnf :: u32
  ber_ko :: u64

record tap =
  tap_state :: sc_state
  tap_buf :: "u8 list"
  dernier_chan_nr :: u8
  seq :: u32
  fn_dedie :: u32
  fn_dedie_vue :: bool
  trx_chan_nr :: u8
  pdtch :: pdtch_stats
  tap_trace :: "tap_ev list"

abbreviation (input) SERCOMM_DLCI_L1CTL :: u8 where "SERCOMM_DLCI_L1CTL \<equiv> 5"
abbreviation (input) L1CTL_DATA_IND :: u8 where "L1CTL_DATA_IND \<equiv> 0x03"
abbreviation (input) L1CTL_RACH_CONF :: u8 where "L1CTL_RACH_CONF \<equiv> 0x0c"
abbreviation (input) L1CTL_DATA_CONF :: u8 where "L1CTL_DATA_CONF \<equiv> 0x0f"
abbreviation (input) L1CTL_GPRS_DL_BLOCK_IND :: u8 where "L1CTL_GPRS_DL_BLOCK_IND \<equiv> 0x23"
abbreviation (input) L1CTL_GPRS_UL_BLOCK_CNF :: u8 where "L1CTL_GPRS_UL_BLOCK_CNF \<equiv> 0x26"
abbreviation (input) DCCH_RELEASED :: int where "DCCH_RELEASED \<equiv> 0xFF"
abbreviation (input) DCCH_TCH_F :: int where "DCCH_TCH_F \<equiv> 2"
abbreviation (input) DCCH_TCH_H :: int where "DCCH_TCH_H \<equiv> 3"
abbreviation (input) DCCH_PDCH :: int where "DCCH_PDCH \<equiv> 4"
abbreviation (input) DCCH_LIBERE_APRES_TRAMES :: u32 where "DCCH_LIBERE_APRES_TRAMES \<equiv> 100"
abbreviation (input) GSM_HYPERFRAME :: "'a::len word" where "GSM_HYPERFRAME \<equiv> 2715648"

definition tap_init :: tap where
  "tap_init = \<lparr>tap_state = SC_IDLE, tap_buf = [], dernier_chan_nr = 0xFF, seq = 0, fn_dedie = 0,
     fn_dedie_vue = False, trx_chan_nr = 0xFF,
     pdtch = \<lparr>donnees = 0, autre_tfi = 0, crc_ko = 0, ptcch = 0, ul_cnf = 0, ber_ko = 0\<rparr>, tap_trace = []\<rparr>"

definition tap_emit :: "tap_ev list \<Rightarrow> tap \<Rightarrow> tap" where
  "tap_emit es t = t\<lparr>tap_trace := tap_trace t @ es\<rparr>"

definition dcch_cfg_publier :: "(u32 \<Rightarrow> shm_result) \<Rightarrow> int \<Rightarrow> int \<Rightarrow> u8 \<Rightarrow> tap \<Rightarrow> tap" where
  "dcch_cfg_publier fs kind ss chan_nr t =
     (let t1 = t\<lparr>seq := seq t + 1\<rparr>;
          b = le32_bytes (seq t1) @ [word_of_int kind, word_of_int ss, chan_nr AND 0x07, chan_nr] @ replicate 8 0
      in case fs (seq t1) of
           ShmOpenFails \<Rightarrow> t1
         | ShmWriteFails \<Rightarrow> tap_emit [TapShmTrunc] t1
         | ShmWritten \<Rightarrow>
             (let t2 = tap_emit [TapShm b] t1
              in if kind \<noteq> DCCH_TCH_F \<and> kind \<noteq> DCCH_TCH_H \<and> chan_nr \<noteq> trx_chan_nr t2
                 then tap_emit [TapTrxDcch kind ss (chan_nr AND 0x07)]
                        (t2\<lparr>trx_chan_nr := (if kind = DCCH_RELEASED then 0xFF else chan_nr)\<rparr>)
                 else t2))"

text \<open>The accounting of a downlink PDCH block (\<open>charge\<close> is the payload after DLCI and control).\<close>

definition pdtch_compter :: "u8 list \<Rightarrow> pdtch_stats \<Rightarrow> pdtch_stats" where
  "pdtch_compter charge p =
     (let plen = length charge;
          bfn = ldl_be_p charge 4
      in if bfn mod 104 = 12 then p\<lparr>ptcch := ptcch p + 1\<rparr>
         else if plen \<ge> 41 then p\<lparr>donnees := donnees p + 1\<rparr>
         else if plen \<ge> 18 \<and> charge ! 17 \<noteq> 0xff then p\<lparr>autre_tfi := autre_tfi p + 1\<rparr>
         else if plen \<ge> 18 then
           p\<lparr>crc_ko := crc_ko p + 1, ber_ko := ber_ko p + (push_bit 8 (ucast (charge ! 12)) OR ucast (charge ! 13))\<rparr>
         else p)"

definition tap_dl_block :: "(u32 \<Rightarrow> shm_result) \<Rightarrow> u8 list \<Rightarrow> tap \<Rightarrow> tap" where
  "tap_dl_block fs charge t =
     (let tn = charge ! 8 AND 0x07;
          chan_nr = 0xC0 OR tn;
          t1 = t\<lparr>pdtch := pdtch_compter charge (pdtch t), fn_dedie := ldl_be_p charge 4, fn_dedie_vue := True\<rparr>
      in if chan_nr \<noteq> dernier_chan_nr t1
         then dcch_cfg_publier fs DCCH_PDCH 0 chan_nr (t1\<lparr>dernier_chan_nr := chan_nr\<rparr>)
         else t1)"

definition chan_nr_decode :: "u8 \<Rightarrow> int \<times> int" where
  "chan_nr_decode chan_nr =
     (if chan_nr AND 0xE0 = 0x20 then (0, uint (drop_bit 3 chan_nr AND 0x03))
      else if chan_nr AND 0xC0 = 0x40 then (1, uint (drop_bit 3 chan_nr AND 0x07))
      else if chan_nr AND 0xF8 = 0x08 then (DCCH_TCH_F, 0)
      else if chan_nr AND 0xF0 = 0x10 then (DCCH_TCH_H, uint (drop_bit 3 chan_nr AND 0x01))
      else (-1, 0))"

definition tap_common_block :: "(u32 \<Rightarrow> shm_result) \<Rightarrow> u8 \<Rightarrow> u32 \<Rightarrow> tap \<Rightarrow> tap" where
  "tap_common_block fs chan_nr fn t =
     (if dernier_chan_nr t \<noteq> 0xFF \<and> chan_nr AND 0xE0 = 0x80 then
        (let ecart = (if fn_dedie_vue t then (fn - fn_dedie t) mod GSM_HYPERFRAME else 0xFFFFFFFF)
         in if \<not> fn_dedie_vue t \<or> (ecart \<ge> DCCH_LIBERE_APRES_TRAMES \<and> ecart < GSM_HYPERFRAME div 2)
            then dcch_cfg_publier fs DCCH_RELEASED 0 0 (t\<lparr>dernier_chan_nr := 0xFF, fn_dedie_vue := False\<rparr>)
            else t)
      else t)"

definition trame_complete :: "(u32 \<Rightarrow> shm_result) \<Rightarrow> tap \<Rightarrow> tap" where
  "trame_complete fs t =
     (if length (tap_buf t) < 3 \<or> tap_buf t ! 0 \<noteq> SERCOMM_DLCI_L1CTL then t
      else let charge = drop 2 (tap_buf t);
               plen = length (tap_buf t) - 2;
               type = charge ! 0
           in if type = L1CTL_RACH_CONF \<and> plen \<ge> 12 then tap_emit [TapRachConf (ldl_be_p charge 8)] t
              else if type = L1CTL_GPRS_DL_BLOCK_IND \<and> plen \<ge> 9 then tap_dl_block fs charge t
              else if type = L1CTL_GPRS_UL_BLOCK_CNF then t\<lparr>pdtch := (pdtch t)\<lparr>ul_cnf := ul_cnf (pdtch t) + 1\<rparr>\<rparr>
              else if (type \<noteq> L1CTL_DATA_CONF \<and> type \<noteq> L1CTL_DATA_IND) \<or> plen < 5 then t
              else let chan_nr = charge ! 4;
                       (kind, ss) = chan_nr_decode chan_nr;
                       fn = (if plen \<ge> 12 then ldl_be_p charge 8 else 0)
                   in if kind \<ge> 0 then
                        (let t1 = t\<lparr>fn_dedie := fn, fn_dedie_vue := True\<rparr>
                         in if chan_nr \<noteq> dernier_chan_nr t1
                            then dcch_cfg_publier fs kind ss chan_nr (t1\<lparr>dernier_chan_nr := chan_nr\<rparr>)
                            else t1)
                      else tap_common_block fs chan_nr fn t)"

definition calypso_dcch_tap_tx_byte :: "(u32 \<Rightarrow> shm_result) \<Rightarrow> tap \<Rightarrow> u8 \<Rightarrow> tap" where
  "calypso_dcch_tap_tx_byte fs t byte =
     (case tap_state t of
        SC_IDLE \<Rightarrow> if byte = SERCOMM_FLAG then t\<lparr>tap_state := SC_IN_FRAME, tap_buf := []\<rparr> else t
      | SC_IN_FRAME \<Rightarrow>
          (if byte = SERCOMM_FLAG then
             (let t1 = (if tap_buf t \<noteq> [] then trame_complete fs t else t) in t1\<lparr>tap_buf := []\<rparr>)
           else if byte = SERCOMM_ESCAPE then t\<lparr>tap_state := SC_ESCAPE\<rparr>
           else if length (tap_buf t) < 512 then t\<lparr>tap_buf := tap_buf t @ [byte]\<rparr>
           else t)
      | SC_ESCAPE \<Rightarrow>
          (let t1 = (if length (tap_buf t) < 512 then t\<lparr>tap_buf := tap_buf t @ [byte XOR SERCOMM_ESCAPE_XOR]\<rparr> else t)
           in t1\<lparr>tap_state := SC_IN_FRAME\<rparr>))"

definition calypso_dcch_tap_reset :: "(u32 \<Rightarrow> shm_result) \<Rightarrow> tap \<Rightarrow> tap" where
  "calypso_dcch_tap_reset fs t =
     (if dernier_chan_nr t = 0xFF then t
      else dcch_cfg_publier fs DCCH_RELEASED 0 0 (t\<lparr>dernier_chan_nr := 0xFF\<rparr>))"

section \<open>Framing\<close>

definition tap_put :: "sc_state \<Rightarrow> u8 list \<Rightarrow> tap \<Rightarrow> tap" where
  "tap_put st buf t = t\<lparr>tap_state := st, tap_buf := buf\<rparr>"

lemma publier_rx [simp]:
  "tap_state (dcch_cfg_publier fs k ss c t) = tap_state t" "tap_buf (dcch_cfg_publier fs k ss c t) = tap_buf t"
  by (simp_all add: dcch_cfg_publier_def tap_emit_def Let_def split: shm_result.split)

lemma trame_complete_rx [simp]:
  "tap_state (trame_complete fs t) = tap_state t" "tap_buf (trame_complete fs t) = tap_buf t"
  by (simp_all add: trame_complete_def tap_dl_block_def tap_common_block_def tap_emit_def Let_def split: prod.split)

interpretation tap_rx: sercomm_rx tap_state tap_buf tap_put "trame_complete fs" "\<lambda>t b. t" "calypso_dcch_tap_tx_byte fs" for fs
  by unfold_locales (auto simp: tap_put_def calypso_dcch_tap_tx_byte_def Let_def)

section \<open>Dedicated channels\<close>

text \<open>The channel numbers of 3GPP TS 44.004, 8.3, with their subslot and timeslot.\<close>

datatype ded_chan = Sdcch4 nat nat | Sdcch8 nat nat | TchF nat | TchH nat nat

fun ded_valid :: "ded_chan \<Rightarrow> bool" where
  "ded_valid (Sdcch4 ss tn) = (ss < 4 \<and> tn < 8)"
| "ded_valid (Sdcch8 ss tn) = (ss < 8 \<and> tn < 8)"
| "ded_valid (TchF tn) = (tn < 8)"
| "ded_valid (TchH ss tn) = (ss < 2 \<and> tn < 8)"

fun ded_num :: "ded_chan \<Rightarrow> nat" where
  "ded_num (Sdcch4 ss tn) = (4 + ss) * 8 + tn"
| "ded_num (Sdcch8 ss tn) = (8 + ss) * 8 + tn"
| "ded_num (TchF tn) = 1 * 8 + tn"
| "ded_num (TchH ss tn) = (2 + ss) * 8 + tn"

definition chan_code :: "ded_chan \<Rightarrow> u8" where
  "chan_code c = of_nat (ded_num c)"

fun ded_kind :: "ded_chan \<Rightarrow> int" where
  "ded_kind (Sdcch4 ss tn) = 0"
| "ded_kind (Sdcch8 ss tn) = 1"
| "ded_kind (TchF tn) = 2"
| "ded_kind (TchH ss tn) = 3"

fun ded_ss :: "ded_chan \<Rightarrow> nat" where
  "ded_ss (Sdcch4 ss tn) = ss"
| "ded_ss (Sdcch8 ss tn) = ss"
| "ded_ss (TchF tn) = 0"
| "ded_ss (TchH ss tn) = ss"

fun ded_tn :: "ded_chan \<Rightarrow> nat" where
  "ded_tn (Sdcch4 ss tn) = tn"
| "ded_tn (Sdcch8 ss tn) = tn"
| "ded_tn (TchF tn) = tn"
| "ded_tn (TchH ss tn) = tn"

lemma chan_masks:
  fixes x :: u8
  shows "x AND 0xE0 = 0x20 \<longleftrightarrow> drop_bit 5 x = 1" and "x AND 0xC0 = 0x40 \<longleftrightarrow> drop_bit 6 x = 1"
    and "x AND 0xF8 = 0x08 \<longleftrightarrow> drop_bit 3 x = 1" and "x AND 0xF0 = 0x10 \<longleftrightarrow> drop_bit 4 x = 1"
  by (auto simp: word_eq_bits bit_simps numeral_eq_Suc All_less_Suc dest: bit_imp_le_length)

lemma chan_nr_decode_arith:
  "chan_nr_decode x =
     (let m = unat x div 8
      in if 4 \<le> m \<and> m < 8 then (0, int (m - 4)) else if 8 \<le> m \<and> m < 16 then (1, int (m - 8))
         else if m = 1 then (2, 0) else if 2 \<le> m \<and> m < 4 then (3, int (m - 2)) else (-1, 0))"
proof -
  have d: "drop_bit k x = 1 \<longleftrightarrow> unat x div 2 ^ k = 1" for k
    by (simp add: word_unat_eq_iff unat_drop_bit_eq drop_bit_nat_def)
  have u: "uint w = int (unat w)" for w :: u8 by simp
  define m where "m = unat x div 8"
  have m: "unat x div 32 = m div 4" "unat x div 64 = m div 8" "unat x div 16 = m div 2"
    by (simp_all add: m_def div_mult2_eq [symmetric])
  have r: "unat (drop_bit 3 x AND 0x03) = m mod 4" "unat (drop_bit 3 x AND 0x07) = m mod 8" "unat (drop_bit 3 x AND 0x01) = m mod 2"
    by (simp_all add: m_def mask_take_bit unsigned_take_bit_eq unat_drop_bit_eq drop_bit_nat_def take_bit_nat_def
        and_one_eq unat_mod_distrib)
  have "m div 4 = 1 \<longleftrightarrow> 4 \<le> m \<and> m < 8" "m div 8 = 1 \<longleftrightarrow> 8 \<le> m \<and> m < 16" "m div 2 = 1 \<longleftrightarrow> 2 \<le> m \<and> m < 4" by linarith+
  moreover have "4 \<le> m \<Longrightarrow> m < 8 \<Longrightarrow> m mod 4 = m - 4" "8 \<le> m \<Longrightarrow> m < 16 \<Longrightarrow> m mod 8 = m - 8"
    "2 \<le> m \<Longrightarrow> m < 4 \<Longrightarrow> m mod 2 = m - 2" by (simp_all add: mod_if)
  ultimately show ?thesis
    unfolding chan_nr_decode_def chan_masks d u by (simp add: Let_def m r flip: m_def)
qed

lemma unat_chan_code: "ded_valid c \<Longrightarrow> unat (chan_code c) = ded_num c"
  by (cases c) (simp_all add: chan_code_def unsigned_of_nat take_bit_nat_eq_self del: of_nat_add of_nat_mult)

lemma mod_lt8: "b < 8 \<Longrightarrow> (a * 8 + b) mod 8 = (b :: nat)"
  by simp

lemma ded_decode:
  assumes "ded_valid c"
  shows "chan_nr_decode (chan_code c) = (ded_kind c, int (ded_ss c))" and "chan_code c AND 0x07 = of_nat (ded_tn c)"
    and "chan_code c \<noteq> 0xFF"
proof -
  have q: "ded_num c div 8 = (case c of Sdcch4 ss tn \<Rightarrow> 4 + ss | Sdcch8 ss tn \<Rightarrow> 8 + ss | TchF tn \<Rightarrow> 1 | TchH ss tn \<Rightarrow> 2 + ss)"
    using assms by (cases c; simp; linarith)
  have tn: "ded_num c mod 8 = ded_tn c" 
    using assms mod_lt8 by (cases c) (simp_all only: ded_num.simps ded_tn.simps ded_valid.simps)
  have lt: "ded_num c < 128" using assms by (cases c) simp_all
  from q assms show "chan_nr_decode (chan_code c) = (ded_kind c, int (ded_ss c))"
    by (cases c) (simp_all add: chan_nr_decode_arith unat_chan_code)
  have "unat (chan_code c AND 0x07) = ded_tn c"
    using tn unat_chan_code [OF assms] by (simp add: mask_take_bit unsigned_take_bit_eq take_bit_nat_def)
  then have "of_nat (unat (chan_code c AND 0x07)) = (of_nat (ded_tn c) :: u8)" by (rule arg_cong)
  then show "chan_code c AND 0x07 = of_nat (ded_tn c)" by simp
  show "chan_code c \<noteq> 0xFF"
    using lt unat_chan_code [OF assms] by auto
qed

lemma decode_ded:
  assumes "fst (chan_nr_decode x) \<ge> 0"
  shows "\<exists>c. ded_valid c \<and> x = chan_code c"
proof -
  define m where "m = unat x div 8"
  define r where "r = unat x mod 8"
  have r: "r < 8" and x: "x = of_nat (m * 8 + r)" by (simp_all add: m_def r_def del: of_nat_add of_nat_mult)
  consider "4 \<le> m \<and> m < 8" | "8 \<le> m \<and> m < 16" | "m = 1" | "2 \<le> m \<and> m < 4"
    using assms by (auto simp: chan_nr_decode_arith Let_def m_def [symmetric] split: if_splits)
  then obtain c where "ded_valid c" and "m * 8 + r = ded_num c"
  proof cases
    case 1
    then show ?thesis using r by (intro that [of "Sdcch4 (m - 4) r"]) auto
  next
    case 2
    then show ?thesis using r by (intro that [of "Sdcch8 (m - 8) r"]) auto
  next
    case 3
    then show ?thesis using r by (intro that [of "TchF r"]) auto
  next
    case 4
    then show ?thesis using r by (intro that [of "TchH (m - 2) r"]) auto
  qed
  then show ?thesis using x by (auto simp: chan_code_def simp del: of_nat_add of_nat_mult)
qed

text \<open>C23. Channel numbers round trip: the tap recovers kind, subslot and timeslot of every SDCCH/4, SDCCH/8,
  TCH/F and TCH/H channel number, and takes no other number for a dedicated channel.\<close>

theorem chan_nr_roundtrip:
  "(ded_valid c \<longrightarrow> chan_nr_decode (chan_code c) = (ded_kind c, int (ded_ss c))
       \<and> chan_code c AND 0x07 = of_nat (ded_tn c))
   \<and> (fst (chan_nr_decode x) \<ge> 0 \<longleftrightarrow> (\<exists>c. ded_valid c \<and> x = chan_code c))"
proof -
  have "fst (chan_nr_decode (chan_code c)) \<ge> 0" if "ded_valid c" for c
    using that by (cases c) (simp_all add: ded_decode)
  then show ?thesis using decode_ded by (auto simp: ded_decode)
qed

theorem chan_nr_roundtrip_witness:
  "chan_nr_decode (chan_code (Sdcch8 5 2)) = (1, 5) \<and> (0x80 :: u8) \<noteq> chan_code (Sdcch8 5 2)"
  using chan_nr_roundtrip [of "Sdcch8 5 2" "0x80"] by (auto simp: chan_nr_decode_arith)

section \<open>Announcing a channel\<close>

text \<open>An L1CTL data message: header, downlink information element, frame number.\<close>

definition l1ctl_data :: "u8 \<Rightarrow> u8 list \<Rightarrow> u8 \<Rightarrow> u8 list \<Rightarrow> u32 \<Rightarrow> u8 list \<Rightarrow> u8 list" where
  "l1ctl_data type hdr chan_nr info fn rest = [5, 3] @ [type] @ hdr @ [chan_nr] @ info @ be32_bytes fn @ rest"

lemma l1ctl_data_fields:
  assumes "length hdr = 3" and "length info = 3"
  shows "drop 2 (l1ctl_data type hdr c info fn rest) ! 4 = c" and "ldl_be_p (drop 2 (l1ctl_data type hdr c info fn rest)) 8 = fn"
    and "length (l1ctl_data type hdr c info fn rest) = 14 + length rest"
proof -
  have "drop 2 (l1ctl_data type hdr c info fn rest) = ([type] @ hdr @ [c] @ info) @ be32_bytes fn @ rest"
    by (simp add: l1ctl_data_def)
  then show "ldl_be_p (drop 2 (l1ctl_data type hdr c info fn rest)) 8 = fn"
    using ldl_be_bytes [of "[type] @ hdr @ [c] @ info" fn rest] assms by simp
qed (use assms in \<open>simp_all add: l1ctl_data_def nth_append be32_bytes_def\<close>)

lemma l1ctl_data_type [simp]: "l1ctl_data type hdr c info fn rest ! 0 = 5" "drop 2 (l1ctl_data type hdr c info fn rest) ! 0 = type"
  by (simp_all add: l1ctl_data_def)

lemma trame_complete_data:
  assumes "type = 0x03 \<or> type = 0x0f" and "length hdr = 3" and "length info = 3"
    and "tap_buf t = l1ctl_data type hdr c info fn rest"
  shows "trame_complete fs t =
    (if fst (chan_nr_decode c) \<ge> 0 then
       (let t1 = t\<lparr>fn_dedie := fn, fn_dedie_vue := True\<rparr>
        in if c \<noteq> dernier_chan_nr t
           then dcch_cfg_publier fs (fst (chan_nr_decode c)) (snd (chan_nr_decode c)) c (t1\<lparr>dernier_chan_nr := c\<rparr>) else t1)
     else tap_common_block fs c fn t)"
  using assms(1)
  by (elim disjE) (simp_all add: trame_complete_def assms(4) l1ctl_data_fields [OF assms(2,3)] case_prod_beta Let_def)

text \<open>C24. Announcing a dedicated channel: when the firmware's stream carries a data message on a
  dedicated channel other than the current one, the tap writes one 16-byte record with the next
  sequence number, the kind, the subslot, the timeslot and the channel number, and tells the transceiver
  about it unless the channel is a TCH or the one it already knows.\<close>

theorem dcch_announce:
  assumes "tap_state t = SC_IDLE \<or> tap_state t = SC_IN_FRAME \<and> tap_buf t = []"
    and "type = 0x03 \<or> type = 0x0f" and "length hdr = 3" and "length info = 3" and "length rest \<le> 498"
    and "ded_valid c" and "chan_code c \<noteq> dernier_chan_nr t" and "fs (seq t + 1) = ShmWritten"
  shows "let t' = foldl (calypso_dcch_tap_tx_byte fs) t (sercomm_frame (l1ctl_data type hdr (chan_code c) info fn rest))
    in tap_trace t' = tap_trace t
         @ [TapShm (le32_bytes (seq t + 1) @ [word_of_int (ded_kind c), of_nat (ded_ss c), of_nat (ded_tn c), chan_code c]
              @ replicate 8 0)]
         @ (if ded_kind c < 2 \<and> chan_code c \<noteq> trx_chan_nr t
            then [TapTrxDcch (ded_kind c) (int (ded_ss c)) (of_nat (ded_tn c))] else [])
       \<and> dernier_chan_nr t' = chan_code c \<and> fn_dedie t' = fn \<and> seq t' = seq t + 1"
proof -
  let ?m = "l1ctl_data type hdr (chan_code c) info fn rest"
  let ?t = "tap_put SC_IN_FRAME ?m t"
  have m: "?m \<noteq> []" "take 512 ?m = ?m"
    using assms(3-5) l1ctl_data_fields(3) [of hdr info type "chan_code c" fn rest] by auto
  have "foldl (calypso_dcch_tap_tx_byte fs) t (sercomm_frame ?m) = tap_put SC_IN_FRAME [] (trame_complete fs ?t)"
    using tap_rx.feed_one_frame [OF assms(1) m(1)] m(2) by simp
  moreover have "trame_complete fs ?t = dcch_cfg_publier fs (ded_kind c) (int (ded_ss c)) (chan_code c)
      (?t\<lparr>fn_dedie := fn, fn_dedie_vue := True, dernier_chan_nr := chan_code c\<rparr>)"
    using trame_complete_data [OF assms(2-4), of ?t] assms(6,7)
    by (cases c) (simp_all add: tap_put_def ded_decode Let_def)
  moreover have "ded_kind c < 2 \<longleftrightarrow> ded_kind c \<noteq> 2 \<and> ded_kind c \<noteq> 3" and "ded_kind c \<noteq> 0xFF" by (cases c; simp)+
  ultimately show ?thesis
    using assms(6,8) by (simp add: dcch_cfg_publier_def tap_emit_def tap_put_def ded_decode Let_def)
qed

theorem dcch_announce_witness:
  "let t' = foldl (calypso_dcch_tap_tx_byte (\<lambda>_. ShmWritten)) tap_init
              (sercomm_frame (l1ctl_data 0x03 [0, 0, 0] 0x41 [0, 0, 0x7E] 1234 []))
   in tap_trace t' = [TapShm ([1, 0, 0, 0, 1, 0, 1, 0x41] @ replicate 8 0), TapTrxDcch 1 0 1] \<and> fn_dedie t' = 1234"
  using dcch_announce [of tap_init "0x03" "[0, 0, 0]" "[0, 0, 0x7E]" "[]" "Sdcch8 0 1" "\<lambda>_. ShmWritten" 1234]
  by (simp add: tap_init_def chan_code_def le32_bytes_def Let_def)

section \<open>Releasing the channel\<close>

lemma unat_ecart:
  fixes fn fd :: u32
  assumes "unat fn < 2715648" and "unat fd < 2715648"
  shows "unat ((fn - fd) mod 2715648) = (if fd \<le> fn then unat fn - unat fd
    else (unat fn + 4294967296 - unat fd) mod 2715648)"
  using assms by (auto simp: unat_mod_distrib unat_sub_if_size word_le_nat_alt word_size)

lemma common_not_dedicated: "c AND 0xE0 = 0x80 \<Longrightarrow> fst (chan_nr_decode c) < 0" for c :: u8
proof -
  assume a: "c AND 0xE0 = 0x80"
  have b: "bit c 7" "\<not> bit c 6" "\<not> bit c 5"
  proof -
    have "bit (c AND 0xE0) n = bit (0x80 :: u8) n" for n using a by simp
    from this [of 7] this [of 6] this [of 5] show "bit c 7" "\<not> bit c 6" "\<not> bit c 5" by (simp_all add: bit_simps)
  qed
  have "c AND m \<noteq> v" if "bit m 7" "\<not> bit v 7" for m v :: u8
    using b(1) that by (metis bit_and_iff)
  then show ?thesis by (simp add: chan_nr_decode_def)
qed

text \<open>C28. Release within a hyperframe: when the firmware sends a data message for a common channel (channel number
  0x80 to 0x9F) while a dedicated channel is in use, a record saying that the channel is released is written to the
  shared file under the next sequence number, and the transceiver is told, exactly when the message comes at least 100
  frames, and less than half a hyperframe, after the last dedicated block; otherwise nothing is written or told and the
  channel is kept. The frame number has not wrapped since that block, and the shared file can be written.\<close>

theorem dcch_release_rule:
  assumes "tap_state t = SC_IDLE \<or> tap_state t = SC_IN_FRAME \<and> tap_buf t = []"
    and "type = 0x03 \<or> type = 0x0f" and "length hdr = 3" and "length info = 3" and "length rest \<le> 498"
    and "c AND 0xE0 = 0x80" and "dernier_chan_nr t \<noteq> 0xFF" and "fn_dedie_vue t" and "trx_chan_nr t \<noteq> 0"
    and "unat fn < 2715648" and "unat (fn_dedie t) \<le> unat fn" and "fs (seq t + 1) = ShmWritten"
  shows "let t' = foldl (calypso_dcch_tap_tx_byte fs) t (sercomm_frame (l1ctl_data type hdr c info fn rest));
      d = unat fn - unat (fn_dedie t)
    in if 100 \<le> d \<and> d < 1357824
       then tap_trace t' = tap_trace t @ [TapShm (le32_bytes (seq t + 1) @ [0xFF, 0, 0, 0] @ replicate 8 0), TapTrxDcch 0xFF 0 0]
         \<and> dernier_chan_nr t' = 0xFF \<and> \<not> fn_dedie_vue t' \<and> seq t' = seq t + 1
       else tap_trace t' = tap_trace t \<and> dernier_chan_nr t' = dernier_chan_nr t \<and> fn_dedie_vue t' \<and> seq t' = seq t"
proof -
  let ?m = "l1ctl_data type hdr c info fn rest"
  let ?t = "tap_put SC_IN_FRAME ?m t"
  have m: "?m \<noteq> []" "take 512 ?m = ?m"
    using assms(3-5) l1ctl_data_fields(3) [of hdr info type c fn rest] by auto
  have "foldl (calypso_dcch_tap_tx_byte fs) t (sercomm_frame ?m) = tap_put SC_IN_FRAME [] (trame_complete fs ?t)"
    using tap_rx.feed_one_frame [OF assms(1) m(1)] m(2) by simp
  moreover have "trame_complete fs ?t = tap_common_block fs c fn ?t"
    using trame_complete_data [OF assms(2-4), of ?t] common_not_dedicated [OF assms(6)] by (simp add: tap_put_def)
  moreover have "unat ((fn - fn_dedie t) mod 2715648) = unat fn - unat (fn_dedie t)"
    using assms(10,11) by (simp add: unat_ecart word_le_nat_alt)
  then have "(fn - fn_dedie t) mod 2715648 \<ge> 100 \<longleftrightarrow> 100 \<le> unat fn - unat (fn_dedie t)"
    and "(fn - fn_dedie t) mod 2715648 < 1357824 \<longleftrightarrow> unat fn - unat (fn_dedie t) < 1357824"
    by (simp_all add: word_le_nat_alt word_less_nat_alt)
  ultimately show ?thesis
    using assms(6-9,12) by (simp add: tap_common_block_def dcch_cfg_publier_def tap_emit_def tap_put_def Let_def)
qed

text \<open>The tap after one data message on SDCCH/8 subslot 0, timeslot 1, in frame \<open>fn\<close>.\<close>

definition tap_on_sdcch :: "u32 \<Rightarrow> tap" where
  "tap_on_sdcch fn = trame_complete (\<lambda>_. ShmWritten) (tap_put SC_IN_FRAME (l1ctl_data 0x03 [0, 0, 0] 0x41 [0, 0, 0] fn []) tap_init)"

lemma tap_on_sdcch_fields:
  "dernier_chan_nr (tap_on_sdcch fn) = 0x41" "fn_dedie_vue (tap_on_sdcch fn)" "fn_dedie (tap_on_sdcch fn) = fn"
  "trx_chan_nr (tap_on_sdcch fn) = 0x41" "seq (tap_on_sdcch fn) = 1"
  unfolding tap_on_sdcch_def
  by (subst trame_complete_data [OF disjI1 [OF refl], of "[0, 0, 0]" "[0, 0, 0]" _ "0x41" fn "[]"],
      simp_all add: tap_put_def tap_init_def chan_nr_decode_arith dcch_cfg_publier_def tap_emit_def Let_def)+

theorem dcch_release_rule_witness:
  "let t = tap_put SC_IN_FRAME [] (tap_on_sdcch 1000);
       rx = (\<lambda>fn. foldl (calypso_dcch_tap_tx_byte (\<lambda>_. ShmWritten)) t (sercomm_frame (l1ctl_data 0x03 [0, 0, 0] 0x90 [0, 0, 0] fn [])))
   in tap_trace (rx 1300) = tap_trace t @ [TapShm ([2, 0, 0, 0, 0xFF, 0, 0, 0] @ replicate 8 0), TapTrxDcch 0xFF 0 0]
      \<and> tap_trace (rx 1050) = tap_trace t \<and> dernier_chan_nr (rx 1050) = 0x41"
  using dcch_release_rule [of "tap_put SC_IN_FRAME [] (tap_on_sdcch 1000)" "0x03" "[0, 0, 0]" "[0, 0, 0]" "[]" "0x90" 1300 "\<lambda>_. ShmWritten"]
    dcch_release_rule [of "tap_put SC_IN_FRAME [] (tap_on_sdcch 1000)" "0x03" "[0, 0, 0]" "[0, 0, 0]" "[]" "0x90" 1050 "\<lambda>_. ShmWritten"]
  by (simp add: tap_put_def tap_on_sdcch_fields le32_bytes_def Let_def)

text \<open>C32. Release across the hyperframe: when the frame number has wrapped since the last dedicated block,
  the distance is computed modulo 2^32 before it is reduced, and a common block that is 100 to 1187839
  frames later releases nothing.\<close>

theorem dcch_release_wrap_missed:
  assumes "dernier_chan_nr t \<noteq> 0xFF" and "fn_dedie_vue t"
    and "unat (fn_dedie t) < 2715648" and "unat fn < unat (fn_dedie t)"
    and "100 \<le> unat fn + 2715648 - unat (fn_dedie t)" and "unat fn + 2715648 - unat (fn_dedie t) < 1187840"
  shows "tap_common_block fs c fn t = t"
proof -
  let ?d = "unat fn + 2715648 - unat (fn_dedie t)"
  have "unat fn + 4294967296 - unat (fn_dedie t) = 1580 * 2715648 + (?d + 1527808)"
    using assms(3,4) by simp
  moreover have "(1580 * 2715648 + (?d + 1527808)) mod 2715648 = (?d + 1527808) mod 2715648"
    by (rule mod_mult_self3)
  ultimately have "(unat fn + 4294967296 - unat (fn_dedie t)) mod 2715648 = ?d + 1527808"
    using assms(6) by (simp only: mod_less)
  then have "unat ((fn - fn_dedie t) mod 2715648) = ?d + 1527808"
    using assms(3,4) by (simp add: unat_ecart word_le_nat_alt)
  then have "\<not> (fn - fn_dedie t) mod 2715648 < 1357824" by (simp add: word_less_nat_alt)
  then show ?thesis using assms(2) by (simp add: tap_common_block_def Let_def)
qed

theorem dcch_release_wrap_missed_witness:
  "tap_common_block (\<lambda>_. ShmWritten) 0x90 150 (tap_on_sdcch 2715640) = tap_on_sdcch 2715640"
  using dcch_release_wrap_missed [of "tap_on_sdcch 2715640" 150 "\<lambda>_. ShmWritten" "0x90"]
  by (simp add: tap_on_sdcch_fields)

end
