(* ===== verification/L1ctl.thy ===== *)
theory L1ctl
  imports Sercomm Uart
begin

text \<open>
  The two other listeners of the L1CTL stream: the tap of the gr-gsm layer 1
  (\<open>l1-grgsm/calypso_l1ctl_tap.c\<close>) and the L1CTL socket server (\<open>l1ctl_sock.c\<close>), which translates
  between sercomm frames on the firmware's modem port and length-prefixed messages on a unix socket.

  What the operating system answers (files that open, bytes a socket takes) is a parameter, a
  function of the history of the calls made so far; what the components do is appended to that history.
  Log lines are left out.
\<close>

section \<open>The tap of the gr-gsm layer 1\<close>

datatype shm_res = OpenFails | WriteFails | Written

datatype ltap_ev =
    LShmTrunc
  | LShm "u8 list"
  | LRachConf u32
  | LDcchActive
  | LDcchIsTch bool
  | LDcchSet int int

record ltap =
  lt_state :: sc_state
  lt_buf :: "u8 list"
  last_chan_nr :: u8
  dcch_seq :: u32
  lt_trace :: "ltap_ev list"

definition ltap_init :: ltap where
  "ltap_init = \<lparr>lt_state = SC_IDLE, lt_buf = [], last_chan_nr = 0xFF, dcch_seq = 0, lt_trace = []\<rparr>"

definition lt_emit :: "ltap_ev list \<Rightarrow> ltap \<Rightarrow> ltap" where
  "lt_emit es t = t\<lparr>lt_trace := lt_trace t @ es\<rparr>"

definition dcch_cfg_publish :: "(ltap_ev list \<Rightarrow> shm_res) \<Rightarrow> int \<Rightarrow> int \<Rightarrow> u8 \<Rightarrow> ltap \<Rightarrow> ltap" where
  "dcch_cfg_publish fs kind ss chan_nr t =
     (let t1 = t\<lparr>dcch_seq := dcch_seq t + 1\<rparr>;
          b = le32_bytes (dcch_seq t1) @ [word_of_int kind, word_of_int ss, chan_nr AND 0x07, chan_nr] @ replicate 8 0
      in case fs (lt_trace t1) of
           OpenFails \<Rightarrow> t1
         | WriteFails \<Rightarrow> lt_emit [LShmTrunc] t1
         | Written \<Rightarrow> lt_emit [LShm b] t1)"

definition sdcch_decode :: "u8 \<Rightarrow> int \<times> int" where
  "sdcch_decode chan_nr =
     (if chan_nr AND 0xE0 = 0x20 then (0, uint (drop_bit 3 chan_nr AND 0x03))
      else if chan_nr AND 0xC0 = 0x40 then (1, uint (drop_bit 3 chan_nr AND 0x07))
      else (-1, 0))"

definition frame_complete :: "(ltap_ev list \<Rightarrow> shm_res) \<Rightarrow> ltap \<Rightarrow> ltap" where
  "frame_complete fs t =
     (if length (lt_buf t) < 3 \<or> lt_buf t ! 0 \<noteq> 5 then t
      else let payload = drop 2 (lt_buf t);
               plen = length (lt_buf t) - 2;
               type = payload ! 0
           in if type = 0x0c \<and> plen \<ge> 12 then lt_emit [LRachConf (ldl_be_p payload 8)] t
              else if (type \<noteq> 0x0f \<and> type \<noteq> 0x03) \<or> plen < 5 then t
              else let chan_nr = payload ! 4;
                       (kind, ss) = sdcch_decode chan_nr;
                       tch = (chan_nr AND 0xF8 = 0x08) \<or> (chan_nr AND 0xF0 = 0x10);
                       dedicated = (tch \<or> kind \<ge> 0);
                       t1 = (if dedicated then lt_emit [LDcchActive, LDcchIsTch tch] t else t)
                   in if kind \<ge> 0 \<and> chan_nr \<noteq> last_chan_nr t1
                      then lt_emit [LDcchSet kind ss] (dcch_cfg_publish fs kind ss chan_nr (t1\<lparr>last_chan_nr := chan_nr\<rparr>))
                      else t1)"

definition calypso_l1ctl_tap_tx_byte :: "(ltap_ev list \<Rightarrow> shm_res) \<Rightarrow> ltap \<Rightarrow> u8 \<Rightarrow> ltap" where
  "calypso_l1ctl_tap_tx_byte fs t byte =
     (case lt_state t of
        SC_IDLE \<Rightarrow> if byte = SERCOMM_FLAG then t\<lparr>lt_state := SC_IN_FRAME, lt_buf := []\<rparr> else t
      | SC_IN_FRAME \<Rightarrow>
          (if byte = SERCOMM_FLAG then
             (let t1 = (if lt_buf t \<noteq> [] then frame_complete fs t else t) in t1\<lparr>lt_buf := []\<rparr>)
           else if byte = SERCOMM_ESCAPE then t\<lparr>lt_state := SC_ESCAPE\<rparr>
           else if length (lt_buf t) < 512 then t\<lparr>lt_buf := lt_buf t @ [byte]\<rparr>
           else t)
      | SC_ESCAPE \<Rightarrow>
          (let t1 = (if length (lt_buf t) < 512 then t\<lparr>lt_buf := lt_buf t @ [byte XOR SERCOMM_ESCAPE_XOR]\<rparr> else t)
           in t1\<lparr>lt_state := SC_IN_FRAME\<rparr>))"

definition calypso_l1ctl_tap_channel_released :: "(ltap_ev list \<Rightarrow> shm_res) \<Rightarrow> ltap \<Rightarrow> ltap" where
  "calypso_l1ctl_tap_channel_released fs t =
     (if last_chan_nr t = 0xFF then t else dcch_cfg_publish fs 0xFF 0 0 (t\<lparr>last_chan_nr := 0xFF\<rparr>))"

definition lt_put :: "sc_state \<Rightarrow> u8 list \<Rightarrow> ltap \<Rightarrow> ltap" where
  "lt_put st buf t = t\<lparr>lt_state := st, lt_buf := buf\<rparr>"

lemma lt_publish_rx [simp]:
  "lt_state (dcch_cfg_publish fs k ss c t) = lt_state t" "lt_buf (dcch_cfg_publish fs k ss c t) = lt_buf t"
  by (simp_all add: dcch_cfg_publish_def lt_emit_def Let_def split: shm_res.split)

lemma frame_complete_rx [simp]:
  "lt_state (frame_complete fs t) = lt_state t" "lt_buf (frame_complete fs t) = lt_buf t"
  by (simp_all add: frame_complete_def lt_emit_def Let_def split: prod.split)

interpretation lt_rx: sercomm_rx lt_state lt_buf lt_put "frame_complete fs" "\<lambda>t b. t" "calypso_l1ctl_tap_tx_byte fs" for fs
  by unfold_locales (auto simp: lt_put_def calypso_l1ctl_tap_tx_byte_def Let_def)

section \<open>The socket server\<close>

datatype sock_ev =
    SockHandler int bool
  | SockClose int
  | SockSend int "u8 list"
  | SockListen int
  | DcchTrunc
  | DcchFile "u8 list"
  | KcTrunc
  | KcFile "u8 list"

record sock_env =
  env_dcch :: "sock_ev list \<Rightarrow> shm_res"
  env_kc :: "sock_ev list \<Rightarrow> shm_res"
  env_send :: "sock_ev list \<Rightarrow> u8 list \<Rightarrow> int"

record l1ctl_sock =
  srv_fd :: int
  cli_fd :: int
  sk_state :: sc_state
  sk_buf :: "u8 list"
  lp_buf :: "nat \<Rightarrow> u8"
  lp_len :: nat
  sk_uart :: "(romload \<times> uart) option"
  sk_last_chan_nr :: u8
  sk_dcch_seq :: u32
  kc_seq :: u32
  sk_trace :: "sock_ev list"

definition sk_emit :: "sock_ev list \<Rightarrow> l1ctl_sock \<Rightarrow> l1ctl_sock" where
  "sk_emit es s = s\<lparr>sk_trace := sk_trace s @ es\<rparr>"

text \<open>One byte of the output of \<open>sercomm_wrap\<close>, with its space checks; \<open>None\<close> is the result -1.\<close>

definition wrap_byte :: "nat \<Rightarrow> u8 list option \<Rightarrow> u8 \<Rightarrow> u8 list option" where
  "wrap_byte out_size acc c =
     (case acc of None \<Rightarrow> None
      | Some out \<Rightarrow>
          if c = SERCOMM_FLAG \<or> c = SERCOMM_ESCAPE then
            (if length out + 2 > out_size then None else Some (out @ [SERCOMM_ESCAPE, c XOR SERCOMM_ESCAPE_XOR]))
          else if length out + 1 > out_size then None else Some (out @ [c]))"

definition sercomm_wrap :: "u8 \<Rightarrow> u8 list \<Rightarrow> nat \<Rightarrow> u8 list option" where
  "sercomm_wrap dlci payload out_size =
     (if 0 \<ge> out_size then None
      else case foldl (wrap_byte out_size) (Some [SERCOMM_FLAG]) ([dlci, 0x03] @ payload) of
             None \<Rightarrow> None
           | Some out \<Rightarrow> if length out \<ge> out_size then None else Some (out @ [SERCOMM_FLAG]))"

definition l1ctl_send_to_mobile :: "sock_env \<Rightarrow> u8 list \<Rightarrow> l1ctl_sock \<Rightarrow> l1ctl_sock" where
  "l1ctl_send_to_mobile e payload s =
     (let len = length payload
      in if cli_fd s < 0 \<or> len = 0 \<or> len > 65535 then s
         else let msg = [of_nat (len div 256), of_nat len] @ payload;
                  sent = env_send e (sk_trace s) msg;
                  s1 = sk_emit [SockSend (cli_fd s) msg] s
              in if sent \<noteq> int (length msg) then (sk_emit [SockClose (cli_fd s1)] s1)\<lparr>cli_fd := -1\<rparr> else s1)"

definition sk_publish :: "sock_env \<Rightarrow> u8 \<Rightarrow> l1ctl_sock \<Rightarrow> l1ctl_sock" where
  "sk_publish e chan_nr s =
     (let (kind, ss) = sdcch_decode chan_nr
      in if kind \<ge> 0 \<and> chan_nr \<noteq> sk_last_chan_nr s then
           (let s1 = s\<lparr>sk_last_chan_nr := chan_nr, sk_dcch_seq := sk_dcch_seq s + 1\<rparr>;
                b = le32_bytes (sk_dcch_seq s1) @ [word_of_int kind, word_of_int ss, chan_nr AND 0x07, chan_nr] @ replicate 8 0
            in case env_dcch e (sk_trace s1) of
                 OpenFails \<Rightarrow> s1
               | WriteFails \<Rightarrow> sk_emit [DcchTrunc] s1
               | Written \<Rightarrow> sk_emit [DcchFile b] s1)
         else s)"

definition sercomm_frame_complete :: "sock_env \<Rightarrow> l1ctl_sock \<Rightarrow> l1ctl_sock" where
  "sercomm_frame_complete e s =
     (if length (sk_buf s) < 2 then s
      else let dlci = sk_buf s ! 0;
               payload = drop 2 (sk_buf s);
               plen = length (sk_buf s) - 2
           in if dlci = 5 \<and> plen > 0 then
                (let s1 = (if (payload ! 0 = 0x0f \<or> payload ! 0 = 0x03) \<and> plen \<ge> 5 then sk_publish e (payload ! 4) s else s)
                 in l1ctl_send_to_mobile e payload s1)
              else s)"

definition l1ctl_sock_uart_tx_byte :: "sock_env \<Rightarrow> l1ctl_sock \<Rightarrow> u8 \<Rightarrow> l1ctl_sock" where
  "l1ctl_sock_uart_tx_byte e s byte =
     (case sk_state s of
        SC_IDLE \<Rightarrow> if byte = SERCOMM_FLAG then s\<lparr>sk_state := SC_IN_FRAME, sk_buf := []\<rparr> else s
      | SC_IN_FRAME \<Rightarrow>
          (if byte = SERCOMM_FLAG then
             (let s1 = (if sk_buf s \<noteq> [] then sercomm_frame_complete e s else s) in s1\<lparr>sk_buf := []\<rparr>)
           else if byte = SERCOMM_ESCAPE then s\<lparr>sk_state := SC_ESCAPE\<rparr>
           else if length (sk_buf s) < 512 then s\<lparr>sk_buf := sk_buf s @ [byte]\<rparr>
           else s)
      | SC_ESCAPE \<Rightarrow>
          (let s1 = (if length (sk_buf s) < 512 then s\<lparr>sk_buf := sk_buf s @ [byte XOR SERCOMM_ESCAPE_XOR]\<rparr> else s)
           in s1\<lparr>sk_state := SC_IN_FRAME\<rparr>))"

text \<open>The bytes \<open>lp_buf[from .. from + n)\<close>.\<close>

definition lp_slice :: "l1ctl_sock \<Rightarrow> nat \<Rightarrow> nat \<Rightarrow> u8 list" where
  "lp_slice s from n = map (\<lambda>i. lp_buf s (from + i)) [0..<n]"

definition kc_write :: "sock_env \<Rightarrow> u8 list \<Rightarrow> l1ctl_sock \<Rightarrow> l1ctl_sock" where
  "kc_write e b s =
     (case env_kc e (sk_trace s) of
        OpenFails \<Rightarrow> s
      | WriteFails \<Rightarrow> sk_emit [KcTrunc] s
      | Written \<Rightarrow> sk_emit [KcFile b] s)"

definition l1ctl_kc_capture :: "sock_env \<Rightarrow> nat \<Rightarrow> l1ctl_sock \<Rightarrow> l1ctl_sock" where
  "l1ctl_kc_capture e msglen s =
     (let payload = (\<lambda>i. lp_buf s (2 + i))
      in if payload 0 = 0x15 \<and> msglen \<ge> 10 then
           (let algo = payload 8;
                klen = (if payload 9 > 16 then 16 else unat (payload 9))
            in if algo \<ge> 1 \<and> algo \<le> 3 \<and> 10 + klen \<le> msglen then
                 (let s1 = s\<lparr>kc_seq := kc_seq s + 1\<rparr>
                  in kc_write e (le32_bytes (kc_seq s1) @ [algo, of_nat klen] @ lp_slice s1 12 klen @ replicate (26 - klen) 0) s1)
               else s)
         else s)"

definition l1ctl_message :: "sock_env \<Rightarrow> nat \<Rightarrow> l1ctl_sock \<Rightarrow> l1ctl_sock" where
  "l1ctl_message e msglen s =
     (let s1 = l1ctl_kc_capture e msglen s;
          s2 = (if lp_buf s1 2 = 0x05 \<or> lp_buf s1 2 = 0x12 then kc_write e (replicate 32 0) s1 else s1)
      in case (sercomm_wrap 5 (lp_slice s2 2 msglen) 1024, sk_uart s2) of
           (Some frame, Some (r, u)) \<Rightarrow> s2\<lparr>sk_uart := Some (calypso_uart_receive r u frame)\<rparr>
         | _ \<Rightarrow> s2)"

definition l1ctl_consume :: "nat \<Rightarrow> l1ctl_sock \<Rightarrow> l1ctl_sock" where
  "l1ctl_consume consumed s =
     s\<lparr>lp_buf := (\<lambda>i. if i < lp_len s - consumed then lp_buf s (consumed + i) else lp_buf s i),
       lp_len := lp_len s - consumed\<rparr>"

lemma kc_write_fields [simp]:
  "lp_len (kc_write e b s) = lp_len s" "lp_buf (kc_write e b s) = lp_buf s" "sk_uart (kc_write e b s) = sk_uart s"
  by (simp_all add: kc_write_def sk_emit_def split: shm_res.split)

lemma kc_capture_fields [simp]:
  "lp_len (l1ctl_kc_capture e n s) = lp_len s" "lp_buf (l1ctl_kc_capture e n s) = lp_buf s"
  "sk_uart (l1ctl_kc_capture e n s) = sk_uart s"
  unfolding l1ctl_kc_capture_def Let_def by simp_all

lemma l1ctl_message_fields [simp]:
  "lp_len (l1ctl_message e n s) = lp_len s" "lp_buf (l1ctl_message e n s) = lp_buf s"
  unfolding l1ctl_message_def Let_def by (auto split: option.split prod.split)

function l1ctl_parse :: "sock_env \<Rightarrow> l1ctl_sock \<Rightarrow> l1ctl_sock" where
  "l1ctl_parse e s =
     (if lp_len s \<ge> 2 then
        (let msglen = unat (lp_buf s 0) * 256 + unat (lp_buf s 1)
         in if lp_len s < 2 + msglen then s
            else l1ctl_parse e (l1ctl_consume (2 + msglen) (l1ctl_message e msglen s)))
      else s)"
  by pat_completeness auto
termination by (relation "measure (\<lambda>(e, s). lp_len s)") (auto simp: l1ctl_consume_def Let_def)

declare l1ctl_parse.simps [simp del]

text \<open>The result of \<open>recv\<close> on the client socket: an error, or up to 4096 bytes (none: end of stream).\<close>

datatype recv_result = RecvAgain | RecvError | RecvData "u8 list"

definition l1ctl_drop_client :: "l1ctl_sock \<Rightarrow> l1ctl_sock" where
  "l1ctl_drop_client s = (sk_emit [SockHandler (cli_fd s) False, SockClose (cli_fd s)] s)\<lparr>cli_fd := -1, lp_len := 0\<rparr>"

definition l1ctl_client_readable :: "sock_env \<Rightarrow> recv_result \<Rightarrow> l1ctl_sock \<Rightarrow> l1ctl_sock" where
  "l1ctl_client_readable e res s =
     (case res of
        RecvAgain \<Rightarrow> s
      | RecvError \<Rightarrow> l1ctl_drop_client s
      | RecvData tmp \<Rightarrow>
          if tmp = [] then l1ctl_drop_client s
          else let s1 = (if lp_len s + length tmp > 4096 then s\<lparr>lp_len := 0\<rparr> else s);
                   n = lp_len s1;
                   s2 = s1\<lparr>lp_buf := (\<lambda>i. if n \<le> i \<and> i < n + length tmp then tmp ! (i - n) else lp_buf s1 i),
                           lp_len := n + length tmp\<rparr>
               in l1ctl_parse e s2)"

definition l1ctl_attach :: "int \<Rightarrow> l1ctl_sock \<Rightarrow> l1ctl_sock" where
  "l1ctl_attach fd s =
     sk_emit [SockHandler fd True] (s\<lparr>cli_fd := fd, lp_len := 0, sk_state := SC_IDLE, sk_buf := []\<rparr>)"

definition l1ctl_accept_cb :: "int \<Rightarrow> l1ctl_sock \<Rightarrow> l1ctl_sock" where
  "l1ctl_accept_cb fd s =
     (if fd < 0 then s
      else let s1 = (if cli_fd s \<ge> 0 then sk_emit [SockHandler (cli_fd s) False, SockClose (cli_fd s)] s else s)
           in l1ctl_attach fd s1)"

definition l1ctl_sock_init :: "(romload \<times> uart) option \<Rightarrow> int \<Rightarrow> bool \<Rightarrow> bool \<Rightarrow> l1ctl_sock \<Rightarrow> l1ctl_sock" where
  "l1ctl_sock_init u fd bind_ok listen_ok g =
     (let s = g\<lparr>srv_fd := -1, cli_fd := -1, sk_state := SC_IDLE, sk_buf := [], lp_buf := (\<lambda>_. 0), lp_len := 0, sk_uart := u\<rparr>
      in if fd < 0 then s\<lparr>srv_fd := fd\<rparr>
         else if \<not> bind_ok then (sk_emit [SockClose fd] s)\<lparr>srv_fd := -1\<rparr>
         else if \<not> listen_ok then (sk_emit [SockClose fd] s)\<lparr>srv_fd := -1\<rparr>
         else (sk_emit [SockHandler fd True, SockListen fd] s)\<lparr>srv_fd := fd\<rparr>)"

definition l1ctl_sock_poll :: "sock_env \<Rightarrow> int \<Rightarrow> recv_result \<Rightarrow> l1ctl_sock \<Rightarrow> l1ctl_sock" where
  "l1ctl_sock_poll e fd res s =
     (let s1 = (if srv_fd s \<ge> 0 \<and> cli_fd s < 0 \<and> fd \<ge> 0 then l1ctl_attach fd s else s)
      in if cli_fd s1 \<ge> 0 then l1ctl_client_readable e res s1 else s1)"

definition l1ctl_client_active :: "l1ctl_sock \<Rightarrow> bool" where
  "l1ctl_client_active s \<longleftrightarrow> cli_fd s \<ge> 0"

section \<open>Framing\<close>

lemma foldl_wrap_none: "foldl (wrap_byte n) None p = None"
  by (induction p) (simp_all add: wrap_byte_def)

lemma foldl_wrap_byte:
  "length out \<le> n \<Longrightarrow> foldl (wrap_byte n) (Some out) p = (if length out + length (stuff p) \<le> n then Some (out @ stuff p) else None)"
proof (induction p arbitrary: out)
  case (Cons c p)
  show ?case
  proof (cases "length out + length (stuff_byte c) \<le> n")
    case True
    then have "wrap_byte n (Some out) c = Some (out @ stuff_byte c)"
      by (auto simp: wrap_byte_def stuff_byte_def split: if_splits)
    then show ?thesis using True Cons.IH [of "out @ stuff_byte c"] by (simp add: add.assoc)
  next
    case False
    then have "wrap_byte n (Some out) c = None" by (auto simp: wrap_byte_def stuff_byte_def split: if_splits)
    then show ?thesis using False by (simp add: foldl_wrap_none)
  qed
qed simp

lemma sercomm_wrap_frame:
  "sercomm_wrap dlci p n = (if length (sercomm_frame ([dlci, 3] @ p)) \<le> n then Some (sercomm_frame ([dlci, 3] @ p)) else None)"
proof (cases "n = 0")
  case False
  then show ?thesis
    unfolding sercomm_wrap_def
    by (subst foldl_wrap_byte) (auto simp: sercomm_frame_def)
qed (simp add: sercomm_wrap_def sercomm_frame_def)

definition sk_put :: "sc_state \<Rightarrow> u8 list \<Rightarrow> l1ctl_sock \<Rightarrow> l1ctl_sock" where
  "sk_put st buf s = s\<lparr>sk_state := st, sk_buf := buf\<rparr>"

lemma sk_send_rx [simp]:
  "sk_state (l1ctl_send_to_mobile e p s) = sk_state s" "sk_buf (l1ctl_send_to_mobile e p s) = sk_buf s"
  by (simp_all add: l1ctl_send_to_mobile_def sk_emit_def Let_def)

lemma sk_publish_rx [simp]:
  "sk_state (sk_publish e c s) = sk_state s" "sk_buf (sk_publish e c s) = sk_buf s" "cli_fd (sk_publish e c s) = cli_fd s"
  by (simp_all add: sk_publish_def sk_emit_def Let_def split: prod.split shm_res.split)

lemma sk_complete_rx [simp]:
  "sk_state (sercomm_frame_complete e s) = sk_state s" "sk_buf (sercomm_frame_complete e s) = sk_buf s"
  by (simp_all add: sercomm_frame_complete_def Let_def)

interpretation sk_rx: sercomm_rx sk_state sk_buf sk_put "sercomm_frame_complete e" "\<lambda>s b. s" "l1ctl_sock_uart_tx_byte e" for e
  by unfold_locales (auto simp: sk_put_def l1ctl_sock_uart_tx_byte_def Let_def)

text \<open>C11. Framing round trip: a message the server frames for the firmware, sent back by the firmware over an idle
  receiver to a connected mobile, reaches the mobile behind its two-byte length: unchanged when it is at most 510
  bytes long, and cut to its first 510 bytes, with the length of the cut message in front, when it is longer.\<close>

theorem l1ctl_roundtrip:
  assumes "sercomm_wrap 5 p 1024 = Some f" and "p \<noteq> []"
    and "sk_state s = SC_IDLE \<or> sk_state s = SC_IN_FRAME \<and> sk_buf s = []" and "cli_fd s \<ge> 0"
    and "\<forall>h m. env_send e h m = int (length m)"
  shows "let q = take 510 p in \<exists>evs. sk_trace (foldl (l1ctl_sock_uart_tx_byte e) s f) = sk_trace s @ evs
      @ [SockSend (cli_fd s) ([of_nat (length q div 256), of_nat (length q)] @ q)]
    \<and> length evs \<le> 1 \<and> cli_fd (foldl (l1ctl_sock_uart_tx_byte e) s f) = cli_fd s"
proof -
  define q where "q = take 510 p"
  have q: "q \<noteq> []" "take 512 ([5, 3] @ p) = [5, 3] @ q" "length q \<le> 510" using assms(2) by (simp_all add: q_def)
  have f: "f = sercomm_frame ([5, 3] @ p)"
    using assms(1) by (simp add: sercomm_wrap_frame split: if_splits)
  let ?s = "sk_put SC_IN_FRAME ([5, 3] @ q) s"
  have "foldl (l1ctl_sock_uart_tx_byte e) s f = sk_put SC_IN_FRAME [] (sercomm_frame_complete e ?s)"
    using sk_rx.feed_one_frame [OF assms(3), of "[5, 3] @ p" e] by (simp add: f q_def del: append_Cons append_Nil)
  moreover define s1 where "s1 = (if (q ! 0 = 0x0f \<or> q ! 0 = 0x03) \<and> length q \<ge> 5 then sk_publish e (q ! 4) ?s else ?s)"
  have "sercomm_frame_complete e ?s = l1ctl_send_to_mobile e q s1"
    using q(1) by (simp add: sercomm_frame_complete_def sk_put_def s1_def)
  moreover have "cli_fd s1 = cli_fd s" and "\<exists>evs. sk_trace s1 = sk_trace s @ evs \<and> length evs \<le> 1"
    by (auto simp: s1_def sk_put_def sk_publish_def sk_emit_def Let_def split: prod.splits shm_res.splits)
  ultimately show ?thesis
    using q assms(4,5) unfolding q_def [symmetric] Let_def by (auto simp: l1ctl_send_to_mobile_def sk_put_def sk_emit_def Let_def)
qed

section \<open>Messages of the mobile\<close>

text \<open>The reference: a stream of length-prefixed messages and what is left of an incomplete one.\<close>

fun l1ctl_split :: "u8 list \<Rightarrow> u8 list list \<times> u8 list" where
  "l1ctl_split (h # l # bs) =
     (let n = unat h * 256 + unat l
      in if length bs < n then ([], h # l # bs)
         else let (ms, rest) = l1ctl_split (drop n bs) in (take n bs # ms, rest))"
| "l1ctl_split bs = ([], bs)"

definition l1ctl_deliver :: "(romload \<times> uart) option \<Rightarrow> u8 list \<Rightarrow> (romload \<times> uart) option" where
  "l1ctl_deliver u p =
     (case (sercomm_wrap 5 p 1024, u) of
        (Some frame, Some (r, s)) \<Rightarrow> Some (calypso_uart_receive r s frame)
      | _ \<Rightarrow> u)"

definition lp_pending :: "l1ctl_sock \<Rightarrow> u8 list" where
  "lp_pending s = lp_slice s 0 (lp_len s)"

lemma sk_uart_message: "sk_uart (l1ctl_message e n s) = l1ctl_deliver (sk_uart s) (lp_slice s 2 n)"
  unfolding l1ctl_message_def l1ctl_deliver_def Let_def lp_slice_def by (auto split: option.split prod.split)

lemma lp_pending_consume: "k \<le> lp_len s \<Longrightarrow> lp_pending (l1ctl_consume k s) = drop k (lp_pending s)"
  by (rule nth_equalityI) (simp_all add: lp_pending_def lp_slice_def l1ctl_consume_def add.commute)

lemma lp_pending_split:
  assumes "2 \<le> lp_len s"
  shows "lp_pending s = lp_buf s 0 # lp_buf s 1 # lp_slice s 2 (lp_len s - 2)"
proof -
  obtain k where "lp_len s = Suc (Suc k)" using assms by (metis add_2_eq_Suc le_Suc_ex)
  then show ?thesis
    by (simp add: lp_pending_def lp_slice_def upt_conv_Cons map_Suc_upt [symmetric] del: upt_Suc)
qed

lemma take_lp_slice: "n \<le> k \<Longrightarrow> take n (lp_slice s a k) = lp_slice s a n"
  by (simp add: lp_slice_def take_map)

lemma l1ctl_parse_split:
  "lp_pending (l1ctl_parse e s) = snd (l1ctl_split (lp_pending s))
   \<and> sk_uart (l1ctl_parse e s) = foldl l1ctl_deliver (sk_uart s) (fst (l1ctl_split (lp_pending s)))"
proof (induction "lp_len s" arbitrary: s rule: less_induct)
  case less
  let ?n = "unat (lp_buf s 0) * 256 + unat (lp_buf s 1)"
  consider "lp_len s < 2" | "2 \<le> lp_len s" "lp_len s < 2 + ?n" | "2 \<le> lp_len s" "2 + ?n \<le> lp_len s" by linarith
  then show ?case
  proof cases
    case 1
    then have "lp_len s = 0 \<or> lp_len s = 1" by auto
    then show ?thesis by (auto simp: l1ctl_parse.simps [of e s] lp_pending_def lp_slice_def)
  next
    case 2
    then show ?thesis by (simp add: l1ctl_parse.simps [of e s] lp_pending_split lp_slice_def Let_def)
  next
    case 3
    let ?t = "l1ctl_consume (2 + ?n) (l1ctl_message e ?n s)"
    have p: "lp_pending (l1ctl_message e ?n s) = lp_pending s" by (simp add: lp_pending_def lp_slice_def)
    have "lp_pending ?t = drop (2 + ?n) (lp_pending s)" using 3 by (simp only: lp_pending_consume p l1ctl_message_fields)
    then have t: "lp_pending ?t = drop ?n (lp_slice s 2 (lp_len s - 2))"
      using 3 by (simp add: lp_pending_split)
    have u: "sk_uart ?t = l1ctl_deliver (sk_uart s) (lp_slice s 2 ?n)"
      by (simp add: l1ctl_consume_def sk_uart_message)
    have m: "take ?n (lp_slice s 2 (lp_len s - 2)) = lp_slice s 2 ?n"
      using 3 by (intro take_lp_slice) simp
    have len: "\<not> length (lp_slice s 2 (lp_len s - 2)) < ?n" using 3 by (simp add: lp_slice_def)
    have "l1ctl_parse e s = l1ctl_parse e ?t"
      using 3 by (simp add: l1ctl_parse.simps [of e s] Let_def)
    moreover have "lp_len ?t < lp_len s" using 3 by (simp add: l1ctl_consume_def)
    ultimately show ?thesis
      using less [of ?t] 3 len t u m by (simp add: lp_pending_split case_prod_beta Let_def)
  qed
qed

lemma l1ctl_split_append:
  "l1ctl_split (xs @ ys) = (fst (l1ctl_split xs) @ fst (l1ctl_split (snd (l1ctl_split xs) @ ys)),
     snd (l1ctl_split (snd (l1ctl_split xs) @ ys)))"
  by (induction xs rule: l1ctl_split.induct) (auto simp: case_prod_beta Let_def)

lemma client_readable_split:
  assumes "c \<noteq> []" and "lp_len s + length c \<le> 4096"
  shows "lp_pending (l1ctl_client_readable e (RecvData c) s) = snd (l1ctl_split (lp_pending s @ c))"
    and "sk_uart (l1ctl_client_readable e (RecvData c) s) = foldl l1ctl_deliver (sk_uart s) (fst (l1ctl_split (lp_pending s @ c)))"
proof -
  define s2 where "s2 = s\<lparr>lp_buf := (\<lambda>i. if lp_len s \<le> i \<and> i < lp_len s + length c then c ! (i - lp_len s) else lp_buf s i),
      lp_len := lp_len s + length c\<rparr>"
  have "lp_pending s2 = lp_pending s @ c"
    by (rule nth_equalityI) (auto simp: s2_def lp_pending_def lp_slice_def nth_append)
  moreover have "l1ctl_client_readable e (RecvData c) s = l1ctl_parse e s2"
    using assms by (simp add: l1ctl_client_readable_def s2_def Let_def)
  moreover have "sk_uart s2 = sk_uart s" by (simp add: s2_def)
  ultimately show "lp_pending (l1ctl_client_readable e (RecvData c) s) = snd (l1ctl_split (lp_pending s @ c))"
    and "sk_uart (l1ctl_client_readable e (RecvData c) s) = foldl l1ctl_deliver (sk_uart s) (fst (l1ctl_split (lp_pending s @ c)))"
    using l1ctl_parse_split [of e s2] by simp_all
qed

lemma lp_len_pending: "lp_len s = length (lp_pending s)"
  by (simp add: lp_pending_def lp_slice_def)

lemma split_rest_le: "length (snd (l1ctl_split xs)) \<le> length xs"
  by (induction xs rule: l1ctl_split.induct) (auto simp: case_prod_beta Let_def)

text \<open>The server's static state at start, and with client 7 attached to the modem port.\<close>

definition l1ctl_static :: l1ctl_sock where
  "l1ctl_static = \<lparr>srv_fd = 0, cli_fd = 0, sk_state = SC_IDLE, sk_buf = [], lp_buf = (\<lambda>_. 0), lp_len = 0, sk_uart = None,
     sk_last_chan_nr = 0xFF, sk_dcch_seq = 0, kc_seq = 0, sk_trace = []\<rparr>"

definition l1ctl_connected :: l1ctl_sock where
  "l1ctl_connected = l1ctl_accept_cb 7
     (l1ctl_sock_init (Some (calypso_uart_romload_passthrough romload_init, uart_init (Some ''modem''))) 5 True True l1ctl_static)"

definition env_all_ok :: sock_env where
  "env_all_ok = \<lparr>env_dcch = (\<lambda>_. Written), env_kc = (\<lambda>_. Written), env_send = (\<lambda>_ m. int (length m))\<rparr>"

lemma l1ctl_connected_fields:
  "sk_state l1ctl_connected = SC_IDLE" "cli_fd l1ctl_connected = 7" "lp_len l1ctl_connected = 0" "lp_pending l1ctl_connected = []"
  by (simp_all add: l1ctl_connected_def l1ctl_accept_cb_def l1ctl_attach_def l1ctl_sock_init_def l1ctl_static_def
      sk_emit_def lp_pending_def lp_slice_def Let_def)

theorem l1ctl_roundtrip_witness:
  "\<exists>evs. sk_trace (foldl (l1ctl_sock_uart_tx_byte env_all_ok) l1ctl_connected (sercomm_frame [5, 3, 0x0d, 0x7E])) =
      sk_trace l1ctl_connected @ evs @ [SockSend 7 [0, 2, 0x0d, 0x7E]]"
proof -
  have "sercomm_wrap 5 [0x0d, 0x7E] 1024 = Some (sercomm_frame [5, 3, 0x0d, 0x7E])"
    by (simp add: sercomm_wrap_frame sercomm_frame_def stuff_byte_def)
  then show ?thesis
    using l1ctl_roundtrip [of "[0x0d, 0x7E]" "sercomm_frame [5, 3, 0x0d, 0x7E]" l1ctl_connected env_all_ok]
    by (auto simp: l1ctl_connected_fields env_all_ok_def Let_def)
qed

text \<open>A read that does not fit behind the pending tail discards that tail: what is parsed is the new read alone.\<close>

lemma client_readable_overflow:
  assumes "c \<noteq> []" and "4096 < lp_len s + length c"
  shows "lp_pending (l1ctl_client_readable e (RecvData c) s) = snd (l1ctl_split c)"
    and "sk_uart (l1ctl_client_readable e (RecvData c) s) = foldl l1ctl_deliver (sk_uart s) (fst (l1ctl_split c))"
proof -
  define s2 where "s2 = s\<lparr>lp_buf := (\<lambda>i. if i < length c then c ! i else lp_buf s i), lp_len := length c\<rparr>"
  have "lp_pending s2 = c"
    by (rule nth_equalityI) (auto simp: s2_def lp_pending_def lp_slice_def)
  moreover have "l1ctl_client_readable e (RecvData c) s = l1ctl_parse e s2"
    using assms by (simp add: l1ctl_client_readable_def s2_def Let_def cong: if_cong)
  moreover have "sk_uart s2 = sk_uart s" by (simp add: s2_def)
  ultimately show "lp_pending (l1ctl_client_readable e (RecvData c) s) = snd (l1ctl_split c)"
    and "sk_uart (l1ctl_client_readable e (RecvData c) s) = foldl l1ctl_deliver (sk_uart s) (fst (l1ctl_split c))"
    using l1ctl_parse_split [of e s2] by simp_all
qed

text \<open>The reads of a stream, each of which fits the buffer behind the incomplete message it finds there.\<close>

fun reads_fit :: "u8 list \<Rightarrow> u8 list list \<Rightarrow> bool" where
  "reads_fit tail [] \<longleftrightarrow> True"
| "reads_fit tail (c # cs) \<longleftrightarrow> c \<noteq> [] \<and> length tail + length c \<le> 4096 \<and> reads_fit (snd (l1ctl_split (tail @ c))) cs"

text \<open>C3. Segmentation independence: the server refines the parsing of one byte stream. However the stream is cut
  into any number of nonempty reads, each of which fits the 4096-byte buffer behind the incomplete message it finds
  there, the modem port is handed the same frames, one per complete message that can be framed and in order, and the
  same incomplete tail stays pending.\<close>

theorem l1ctl_segmentation:
  assumes "reads_fit (lp_pending s) cs" and "cs \<noteq> []"
  shows "let t = foldl (\<lambda>s c. l1ctl_client_readable e (RecvData c) s) s cs;
      (ms, rest) = l1ctl_split (lp_pending s @ concat cs)
    in sk_uart t = foldl l1ctl_deliver (sk_uart s) ms \<and> lp_pending t = rest"
  using assms
proof (induction cs arbitrary: s)
  case (Cons c cs)
  let ?s = "l1ctl_client_readable e (RecvData c) s"
  have "c \<noteq> []" "lp_len s + length c \<le> 4096" using Cons.prems by (simp_all add: lp_len_pending)
  note r = client_readable_split [OF this, of e]
  show ?case
  proof (cases "cs = []")
    case True
    then show ?thesis using r by (simp add: case_prod_beta Let_def)
  next
    case False
    moreover have "reads_fit (lp_pending ?s) cs" using Cons.prems r(1) by simp
    ultimately show ?thesis
      using Cons.IH [of ?s] r l1ctl_split_append [of "lp_pending s @ c" "concat cs"] by (simp add: case_prod_beta Let_def)
  qed
qed simp

theorem l1ctl_segmentation_witness:
  "lp_pending (foldl (\<lambda>s c. l1ctl_client_readable env_all_ok (RecvData c) s) l1ctl_connected [[0x00], [0x01], [0x0d, 0x00]]) = [0x00]"
  using l1ctl_segmentation [of l1ctl_connected "[[0x00], [0x01], [0x0d, 0x00]]" env_all_ok]
  by (simp add: l1ctl_connected_fields Let_def case_prod_beta)

end
