(* ===== verification/Gate.thy ===== *)
theory Gate
  imports Sercomm Uart
begin

text \<open>
  The sercomm gate on the modem port, \<open>hw/arm/calypso/sercomm_gate.c\<close>: it decodes the host's stream,
  answers the transceiver control channel (DLCI 4) itself and re-frames everything else into the
  receive queue of the UART. The log lines and \<open>sercomm_gate_init\<close>, which only logs, are left out.

  \<open>stk\<close> is the memory behind the array \<open>rsp[512]\<close> of \<open>sercomm_gate_feed\<close>: the bytes the code reads when
  it reads past the end of the array.
\<close>

section \<open>State and operations\<close>

datatype gate_rx_state = GATE_WAIT_FLAG | GATE_IN_FRAME | GATE_ESCAPE

record gate =
  sc_gstate :: gate_rx_state
  sc_gbuf :: "u8 list"
  g_uart_known :: bool
  guart :: uart

abbreviation (input) GATE_BUF_SIZE :: nat where "GATE_BUF_SIZE \<equiv> 512"
abbreviation (input) SERCOMM_DLCI_TRXC :: u8 where "SERCOMM_DLCI_TRXC \<equiv> 4"

definition gate_init :: "uart \<Rightarrow> gate" where
  "gate_init u = \<lparr>sc_gstate = GATE_WAIT_FLAG, sc_gbuf = [], g_uart_known = False, guart = u\<rparr>"

text \<open>A string literal of the source as its bytes, without the terminating zero.\<close>

definition c_bytes :: "string \<Rightarrow> u8 list" where
  "c_bytes s = map (\<lambda>c. of_nat (of_char c)) s"

definition gate_push_to_fifo :: "u8 list \<Rightarrow> uart \<Rightarrow> uart" where
  "gate_push_to_fifo frame s =
     (let s1 = calypso_uart_inject_raw s [SERCOMM_FLAG];
          s2 = foldl (\<lambda>u c. if c = SERCOMM_FLAG \<or> c = SERCOMM_ESCAPE
                            then calypso_uart_inject_raw (calypso_uart_inject_raw u [SERCOMM_ESCAPE]) [c XOR SERCOMM_ESCAPE_XOR]
                            else calypso_uart_inject_raw u [c]) s1 frame
      in calypso_uart_inject_raw s2 [SERCOMM_FLAG])"

text \<open>The payload loop of \<open>gate_send_trxc_rsp\<close>: it stops when fewer than three bytes of \<open>frame[1024]\<close> are left.\<close>

fun gate_stuff :: "u8 list \<Rightarrow> u8 list \<Rightarrow> u8 list" where
  "gate_stuff frame [] = frame"
| "gate_stuff frame (c # payload) =
     (if length frame + 2 < 1024 then
        gate_stuff (frame @ (if c = SERCOMM_FLAG \<or> c = SERCOMM_ESCAPE then [SERCOMM_ESCAPE, c XOR SERCOMM_ESCAPE_XOR] else [c])) payload
      else frame)"

definition gate_send_trxc_rsp :: "u8 list \<Rightarrow> uart \<Rightarrow> uart" where
  "gate_send_trxc_rsp payload s =
     (let hdr = stuff [SERCOMM_DLCI_TRXC, 0x03];
          frame = gate_stuff ([SERCOMM_FLAG] @ hdr) payload
      in uart_emit s (UChrWrite (frame @ [SERCOMM_FLAG])))"

text \<open>\<open>snprintf(rsp, 512, ...)\<close> of a text \<open>t\<close>, the trailing zero the code adds, and the bytes
  \<open>rsp[0 .. rl)\<close> the caller then sends.\<close>

definition gate_rsp :: "(nat \<Rightarrow> u8) \<Rightarrow> u8 list \<Rightarrow> u8 list" where
  "gate_rsp stk t =
     (let rl = length t
      in if rl > 0 \<and> rl < 512 then t @ [0]
         else take 511 t @ [0] @ map stk [0..<rl - 512])"

text \<open>The text of the answer to a command.\<close>

definition gate_trxc_reply :: "u8 list \<Rightarrow> u8 list \<Rightarrow> u8 list" where
  "gate_trxc_reply verb args =
     (if verb = c_bytes ''POWERON'' then c_bytes ''RSP POWERON 0''
      else if verb = c_bytes ''POWEROFF'' then c_bytes ''RSP POWEROFF 0''
      else if verb = c_bytes ''SETFORMAT'' then c_bytes ''RSP SETFORMAT 0 '' @ (if args \<noteq> [] then args else c_bytes ''0'')
      else if verb = c_bytes ''NOMTXPOWER'' then c_bytes ''RSP NOMTXPOWER 0 50''
      else if verb = c_bytes ''MEASURE'' then c_bytes ''RSP MEASURE 0 '' @ (if args \<noteq> [] then args else c_bytes ''0'') @ c_bytes '' -60''
      else if args \<noteq> [] then c_bytes ''RSP '' @ verb @ c_bytes '' 0 '' @ args
      else c_bytes ''RSP '' @ verb @ c_bytes '' 0'')"

definition gate_trxc_handle :: "(nat \<Rightarrow> u8) \<Rightarrow> u8 list \<Rightarrow> u8 list" where
  "gate_trxc_handle stk cmd_buf =
     (let cmd = rev (dropWhile (\<lambda>c. c = 0 \<or> c = 10) (rev cmd_buf))
      in if length cmd < 4 then []
         else if take 4 cmd \<noteq> c_bytes ''CMD '' then []
         else let tmp = takeWhile (\<lambda>c. c \<noteq> 0) (take 511 (drop 4 cmd));
                  verb = takeWhile (\<lambda>c. c \<noteq> 32) tmp;
                  args = drop (length verb + 1) tmp
              in gate_rsp stk (gate_trxc_reply verb args))"

text \<open>What the gate does with the frame between two flags.\<close>

definition gate_frame :: "(nat \<Rightarrow> u8) \<Rightarrow> gate \<Rightarrow> gate" where
  "gate_frame stk g =
     (if length (sc_gbuf g) \<ge> 2 then
        (if sc_gbuf g ! 0 = SERCOMM_DLCI_TRXC then
           (let rsp = gate_trxc_handle stk (drop 2 (sc_gbuf g))
            in if rsp \<noteq> [] then g\<lparr>guart := gate_send_trxc_rsp rsp (guart g)\<rparr> else g)
         else g\<lparr>guart := gate_push_to_fifo (sc_gbuf g) (guart g)\<rparr>)
      else g)"

definition gate_byte :: "(nat \<Rightarrow> u8) \<Rightarrow> gate \<Rightarrow> u8 \<Rightarrow> gate" where
  "gate_byte stk g b =
     (case sc_gstate g of
        GATE_WAIT_FLAG \<Rightarrow>
          (if b = SERCOMM_FLAG then g\<lparr>sc_gstate := GATE_IN_FRAME, sc_gbuf := []\<rparr>
           else g\<lparr>guart := calypso_uart_inject_raw (guart g) [b]\<rparr>)
      | GATE_ESCAPE \<Rightarrow>
          (let g1 = (if length (sc_gbuf g) < GATE_BUF_SIZE then g\<lparr>sc_gbuf := sc_gbuf g @ [b XOR SERCOMM_ESCAPE_XOR]\<rparr> else g)
           in g1\<lparr>sc_gstate := GATE_IN_FRAME\<rparr>)
      | GATE_IN_FRAME \<Rightarrow>
          (if b = SERCOMM_FLAG then (gate_frame stk g)\<lparr>sc_gbuf := []\<rparr>
           else if b = SERCOMM_ESCAPE then g\<lparr>sc_gstate := GATE_ESCAPE\<rparr>
           else if length (sc_gbuf g) < GATE_BUF_SIZE then g\<lparr>sc_gbuf := sc_gbuf g @ [b]\<rparr>
           else g))"

definition sercomm_gate_feed :: "(nat \<Rightarrow> u8) \<Rightarrow> gate \<Rightarrow> u8 list \<Rightarrow> gate" where
  "sercomm_gate_feed stk g buf = foldl (gate_byte stk) (g\<lparr>g_uart_known := True\<rparr>) buf"

section \<open>Framing\<close>

fun gate_sc :: "gate_rx_state \<Rightarrow> sc_state" where
  "gate_sc GATE_WAIT_FLAG = SC_IDLE"
| "gate_sc GATE_IN_FRAME = SC_IN_FRAME"
| "gate_sc GATE_ESCAPE = SC_ESCAPE"

fun sc_gate :: "sc_state \<Rightarrow> gate_rx_state" where
  "sc_gate SC_IDLE = GATE_WAIT_FLAG"
| "sc_gate SC_IN_FRAME = GATE_IN_FRAME"
| "sc_gate SC_ESCAPE = GATE_ESCAPE"

lemma gate_sc_inverse [simp]: "gate_sc (sc_gate st) = st" "sc_gate (gate_sc gst) = gst"
  by (cases st, simp_all) (cases gst, simp_all)

lemma gate_sc_eq [simp]:
  "gate_sc gst = SC_IDLE \<longleftrightarrow> gst = GATE_WAIT_FLAG" "gate_sc gst = SC_IN_FRAME \<longleftrightarrow> gst = GATE_IN_FRAME"
  "gate_sc gst = SC_ESCAPE \<longleftrightarrow> gst = GATE_ESCAPE"
  by (cases gst, simp_all)+

definition gate_put :: "sc_state \<Rightarrow> u8 list \<Rightarrow> gate \<Rightarrow> gate" where
  "gate_put st buf g = g\<lparr>sc_gstate := sc_gate st, sc_gbuf := buf\<rparr>"

lemma gate_frame_rx [simp]: "sc_gstate (gate_frame stk g) = sc_gstate g" "sc_gbuf (gate_frame stk g) = sc_gbuf g"
  by (simp_all add: gate_frame_def Let_def)

interpretation gate_rx: sercomm_rx "\<lambda>g. gate_sc (sc_gstate g)" sc_gbuf gate_put "gate_frame stk"
  "\<lambda>g b. g\<lparr>guart := calypso_uart_inject_raw (guart g) [b]\<rparr>" "gate_byte stk" for stk
proof
  fix g :: gate and b
  show "gate_byte stk g b = (if b = 0x7E then gate_put SC_IN_FRAME [] (if sc_gbuf g \<noteq> [] then gate_frame stk g else g)
        else if b = 0x7D then gate_put SC_ESCAPE (sc_gbuf g) g
        else gate_put SC_IN_FRAME (if length (sc_gbuf g) < 512 then sc_gbuf g @ [b] else sc_gbuf g) g)"
    if "gate_sc (sc_gstate g) = SC_IN_FRAME"
    using that by (auto simp: gate_byte_def gate_put_def gate_frame_def Let_def)
qed (auto simp: gate_put_def gate_byte_def)

lemma gate_push_frame:
  "gate_push_to_fifo p s = foldl (\<lambda>u c. calypso_uart_inject_raw u [c]) s (sercomm_frame p)"
proof -
  have "(\<lambda>u c. if c = 0x7E \<or> c = 0x7D then calypso_uart_inject_raw (calypso_uart_inject_raw u [0x7D]) [c XOR 0x20]
      else calypso_uart_inject_raw u [c]) = (\<lambda>u c. foldl (\<lambda>u c. calypso_uart_inject_raw u [c]) u (stuff_byte c))"
    by (intro ext) (simp add: stuff_byte_def)
  moreover have "foldl (\<lambda>u c. foldl f u (stuff_byte c)) s p = foldl f s (stuff p)" for f :: "uart \<Rightarrow> u8 \<Rightarrow> uart" and s
    by (induction p arbitrary: s) simp_all
  ultimately show ?thesis by (simp add: gate_push_to_fifo_def sercomm_frame_def)
qed

lemma inject_bytes_content:
  assumes "uart_ring s" and "length (rx_bytes s) + length bs \<le> 8192"
  shows "rx_bytes (foldl (\<lambda>u c. calypso_uart_inject_raw u [c]) s bs) = rx_bytes s @ bs"
  using assms
proof (induction bs arbitrary: s)
  case (Cons b bs)
  then have "rx_bytes (calypso_uart_inject_raw s [b]) = rx_bytes s @ [b]" by (simp add: rx_bytes_inject)
  then show ?case using Cons by (simp add: rx_bytes_inject(2))
qed simp

text \<open>The gate between two frames, or before the first one.\<close>

definition gate_ready :: "gate \<Rightarrow> bool" where
  "gate_ready g \<longleftrightarrow> sc_gstate g = GATE_WAIT_FLAG \<or> sc_gstate g = GATE_IN_FRAME \<and> sc_gbuf g = []"

lemma gate_ready_put [simp]: "gate_ready (gate_put SC_IN_FRAME [] g)"
  by (simp add: gate_ready_def gate_put_def)

lemma gate_feed_frame:
  assumes "gate_ready g" and "p \<noteq> []"
  shows "foldl (gate_byte stk) g (sercomm_frame p) = gate_put SC_IN_FRAME [] (gate_frame stk (gate_put SC_IN_FRAME (take 512 p) g))"
  using assms by (intro gate_rx.feed_one_frame) (auto simp: gate_ready_def)

lemma gate_forward:
  assumes "gate_ready g" and "2 \<le> length p" and "length p \<le> 512" and "p ! 0 \<noteq> 4"
  shows "foldl (gate_byte stk) g (sercomm_frame p) =
    gate_put SC_IN_FRAME [] (g\<lparr>guart := foldl (\<lambda>u c. calypso_uart_inject_raw u [c]) (guart g) (sercomm_frame p)\<rparr>)"
proof -
  have "p \<noteq> []" using assms(2) by auto
  then show ?thesis
    using assms by (simp add: gate_feed_frame gate_frame_def gate_put_def gate_push_frame)
qed

lemma gate_forward_all:
  assumes "gate_ready g" and "\<forall>p \<in> set ps. 2 \<le> length p \<and> length p \<le> 512 \<and> p ! 0 \<noteq> 4"
  shows "gate_ready (foldl (gate_byte stk) g (concat (map sercomm_frame ps)))
    \<and> guart (foldl (gate_byte stk) g (concat (map sercomm_frame ps))) =
        foldl (\<lambda>u c. calypso_uart_inject_raw u [c]) (guart g) (concat (map sercomm_frame ps))"
  using assms
proof (induction ps arbitrary: g)
  case (Cons p ps)
  then show ?case
    using Cons.IH [of "gate_put SC_IN_FRAME [] (g\<lparr>guart := foldl (\<lambda>u c. calypso_uart_inject_raw u [c]) (guart g) (sercomm_frame p)\<rparr>)"]
    by (simp add: gate_forward) (simp add: gate_put_def)
qed simp

lemma gate_raw:
  assumes "sc_gstate g = GATE_WAIT_FLAG" and "0x7E \<notin> set raw"
  shows "foldl (gate_byte stk) g raw = g\<lparr>guart := foldl (\<lambda>u c. calypso_uart_inject_raw u [c]) (guart g) raw\<rparr>"
  using assms by (induction raw arbitrary: g) (simp_all add: gate_byte_def)

section \<open>Properties\<close>

text \<open>C8. The gate is transparent: from any state between two frames, any number of frames of the host of 2 to 512
  bytes each, on any channel but the transceiver control one, reach the receive queue of the firmware as the very bytes
  the host sent, after what was queued, provided the queue of 8192 bytes has room for them; bytes before the first
  frame ever pass unchanged, and the gate is between two frames again afterwards.\<close>

theorem gate_transparent:
  assumes "reaches uart_ok uart_step (romload_init, uart_init lbl) (r, guart g)" and "gate_ready g"
    and "sc_gstate g = GATE_WAIT_FLAG \<or> raw = []" and "0x7E \<notin> set raw"
    and "\<forall>p \<in> set ps. 2 \<le> length p \<and> length p \<le> 512 \<and> p ! 0 \<noteq> 4"
    and "length (rx_bytes (guart g)) + length raw + length (concat (map sercomm_frame ps)) \<le> 8192"
  shows "let g' = sercomm_gate_feed stk g (raw @ concat (map sercomm_frame ps))
    in rx_bytes (guart g') = rx_bytes (guart g) @ raw @ concat (map sercomm_frame ps) \<and> gate_ready g'"
proof -
  have "uart_inv (r, guart g)" using assms(1) by (rule uart_dev.reachable_invar)
  then have ring: "uart_ring (guart g)" by (simp add: uart_dr_def)
  let ?inj = "foldl (\<lambda>u c. calypso_uart_inject_raw u [c])"
  define h where "h = foldl (gate_byte stk) (g\<lparr>g_uart_known := True\<rparr>) raw"
  have "gate_ready h" "guart h = ?inj (guart g) raw"
    using assms(2-4) gate_raw [of "g\<lparr>g_uart_known := True\<rparr>" raw] by (auto simp: h_def gate_ready_def)
  then have "gate_ready (sercomm_gate_feed stk g (raw @ concat (map sercomm_frame ps)))"
    "guart (sercomm_gate_feed stk g (raw @ concat (map sercomm_frame ps))) = ?inj (guart g) (raw @ concat (map sercomm_frame ps))"
    using gate_forward_all [OF _ assms(5), of h] by (simp_all add: sercomm_gate_feed_def h_def)
  then show ?thesis using inject_bytes_content [OF ring, of "raw @ concat (map sercomm_frame ps)"] assms(6) by simp
qed

theorem gate_transparent_witness:
  "rx_bytes (guart (sercomm_gate_feed (\<lambda>_. 0) (gate_init (uart_init None)) ([0x41] @ concat (map sercomm_frame [[5, 3, 0x7E], [10, 3]])))) =
     [0x41, 0x7E, 5, 3, 0x7D, 0x5E, 0x7E, 0x7E, 10, 3, 0x7E]"
proof -
  have "rx_bytes (uart_init None) = []"
    by (simp add: uart_init_def calypso_uart_reset_state_def fifo_reset_def rx_bytes_def)
  then show ?thesis
    using gate_transparent [of None romload_init "gate_init (uart_init None)" "[0x41]" "[[5, 3, 0x7E], [10, 3]]" "\<lambda>_. 0"]
    by (simp add: reaches_refl gate_init_def gate_ready_def sercomm_frame_def stuff_byte_def Let_def)
qed

lemma gate_stuff_frame:
  "length frame + 2 * length p + 2 \<le> 1024 \<Longrightarrow> gate_stuff frame p = frame @ stuff p"
  by (induction p arbitrary: frame) (auto simp: stuff_byte_def)

text \<open>The text of a command without trailing zeros and line feeds.\<close>

lemma trim_id: "xs \<noteq> [] \<Longrightarrow> last xs \<noteq> 0 \<Longrightarrow> last xs \<noteq> 10 \<Longrightarrow> rev (dropWhile (\<lambda>c. c = 0 \<or> c = (10 :: u8)) (rev xs)) = xs"
  by (cases xs rule: rev_cases) simp_all

lemma c_bytes_simps [simp]: "c_bytes [] = []" "c_bytes (c # s) = of_nat (of_char c) # c_bytes s"
  by (simp_all add: c_bytes_def)

lemma trim_length: "length (rev (dropWhile P (rev xs))) \<le> length xs"
  using length_dropWhile_le [of P "rev xs"] by simp

text \<open>The verb and the arguments the handler finds in a command.\<close>

definition trxc_text :: "u8 list \<Rightarrow> u8 list" where
  "trxc_text cmd_buf = takeWhile (\<lambda>c. c \<noteq> 0) (take 511 (drop 4 (rev (dropWhile (\<lambda>c. c = 0 \<or> c = 10) (rev cmd_buf)))))"

definition trxc_verb :: "u8 list \<Rightarrow> u8 list" where
  "trxc_verb cmd_buf = takeWhile (\<lambda>c. c \<noteq> 32) (trxc_text cmd_buf)"

lemma trxc_text_length: "length (trxc_text cmd) \<le> length cmd - 4"
proof -
  have "length (trxc_text cmd) \<le> length (take 511 (drop 4 (rev (dropWhile (\<lambda>c. c = 0 \<or> c = 10) (rev cmd)))))"
    unfolding trxc_text_def by (rule length_takeWhile_le)
  also have "\<dots> \<le> length cmd - 4" 
    using trim_length [of "\<lambda>c. c = 0 \<or> c = 10" cmd] by simp
  finally show ?thesis .
qed

lemma gate_rsp_bounded: "0 < length t \<Longrightarrow> length t \<le> 512 \<Longrightarrow> gate_rsp stk t = gate_rsp stk' t"
  by (simp add: gate_rsp_def Let_def)

text \<open>C33. No read past the response buffer, for every command but one: with a frame that fits the gate's
  buffer and a verb other than MEASURE, the answer does not depend on the memory behind the response buffer.\<close>

theorem gate_trxc_in_bounds:
  assumes "length cmd_buf \<le> 510" and "trxc_verb cmd_buf \<noteq> c_bytes ''MEASURE''"
  shows "gate_trxc_handle stk cmd_buf = gate_trxc_handle stk' cmd_buf"
proof -
  define verb where "verb = trxc_verb cmd_buf"
  define args where "args = drop (length verb + 1) (trxc_text cmd_buf)"
  have len: "length (trxc_text cmd_buf) \<le> 506" using trxc_text_length [of cmd_buf] assms(1) by simp
  have v: "length verb \<le> length (trxc_text cmd_buf)" by (simp add: verb_def trxc_verb_def length_takeWhile_le)
  then have a: "args \<noteq> [] \<Longrightarrow> length verb + 1 + length args \<le> 506" using len by (simp add: args_def)
  have s: "args \<noteq> [] \<Longrightarrow> verb = c_bytes ''SETFORMAT'' \<Longrightarrow> length args \<le> 496" using a by simp
  show ?thesis
    using assms(2) v len a s
    unfolding gate_trxc_handle_def Let_def trxc_text_def [symmetric] trxc_verb_def [symmetric]
      verb_def [symmetric] args_def [symmetric]
    by (intro if_cong refl gate_rsp_bounded) (simp_all add: gate_trxc_reply_def)
qed

theorem gate_trxc_in_bounds_witness:
  "gate_trxc_handle (\<lambda>_. 0) (c_bytes ''CMD POWERON'') = gate_trxc_handle (\<lambda>_. 1) (c_bytes ''CMD POWERON'')
   \<and> gate_trxc_handle (\<lambda>_. 0) (c_bytes ''CMD POWERON'') = c_bytes ''RSP POWERON 0'' @ [0]"
proof -
  have "trxc_verb (c_bytes ''CMD POWERON'') \<noteq> c_bytes ''MEASURE''"
    and "gate_trxc_handle (\<lambda>_. 0) (c_bytes ''CMD POWERON'') = c_bytes ''RSP POWERON 0'' @ [0]"
    by (simp_all add: trxc_verb_def trxc_text_def gate_trxc_handle_def gate_trxc_reply_def gate_rsp_def)
  then show ?thesis
    using gate_trxc_in_bounds [of "c_bytes ''CMD POWERON''" "\<lambda>_. 0" "\<lambda>_. 1"] by simp
qed

lemma gate_trxc_command:
  assumes "0 \<notin> set verb" and "32 \<notin> set verb" and "0 \<notin> set args" and "args \<noteq> []" and "last args \<noteq> 10"
    and "length verb + length args \<le> 510"
  shows "gate_trxc_handle stk (c_bytes ''CMD '' @ verb @ [32] @ args) = gate_rsp stk (gate_trxc_reply verb args)"
proof -
  have "last args \<noteq> 0" using assms(3,4) by (metis last_in_set)
  then have 1: "rev (dropWhile (\<lambda>c. c = 0 \<or> c = 10) (rev (c_bytes ''CMD '' @ verb @ [32] @ args))) = c_bytes ''CMD '' @ verb @ [32] @ args"
    using assms(4,5) by (intro trim_id) simp_all
  have 2: "take 511 (drop 4 (c_bytes ''CMD '' @ verb @ [32] @ args)) = verb @ [32] @ args" using assms(6) by simp
  have 3: "takeWhile (\<lambda>c. c \<noteq> 0) (verb @ [32] @ args) = verb @ [32] @ args"
    unfolding takeWhile_eq_all_conv using assms(1,3) by auto
  have 4: "takeWhile (\<lambda>c. c \<noteq> 32) (verb @ [32] @ args) = verb"
    using assms(2) by (induction verb) auto
  show ?thesis unfolding gate_trxc_handle_def Let_def 1 2 3 4 by simp
qed

text \<open>C34. A MEASURE command with 495 to 498 argument bytes makes the gate send up to four bytes of the
  memory behind the response buffer to the host.\<close>

theorem gate_measure_overread:
  assumes "0 \<notin> set args" and "last args \<noteq> 10" and "494 < length args" and "length args \<le> 498"
  shows "gate_trxc_handle stk (c_bytes ''CMD MEASURE '' @ args) =
    take 511 (c_bytes ''RSP MEASURE 0 '' @ args @ c_bytes '' -60'') @ [0] @ map stk [0..<length args - 494]"
proof -
  have "args \<noteq> []" using assms(3) by auto
  then have "gate_trxc_handle stk (c_bytes ''CMD '' @ c_bytes ''MEASURE'' @ [32] @ args) = gate_rsp stk (gate_trxc_reply (c_bytes ''MEASURE'') args)"
    using assms by (intro gate_trxc_command) simp_all
  then show ?thesis using \<open>args \<noteq> []\<close> assms(3,4) by (simp add: gate_rsp_def gate_trxc_reply_def Let_def)
qed

theorem gate_measure_overread_witness:
  "\<exists>t. gate_trxc_handle (\<lambda>i. of_nat i) (c_bytes ''CMD MEASURE '' @ replicate 498 0x31) = t @ [0] @ [0, 1, 2, 3]"
  using gate_measure_overread [of "replicate 498 0x31" "\<lambda>i. of_nat i"] by (auto simp: last_replicate upt_rec)

lemma gate_send_frame:
  "length q \<le> 509 \<Longrightarrow> gate_send_trxc_rsp q s = uart_emit s (UChrWrite (sercomm_frame ([4, 3] @ q)))"
  using gate_stuff_frame [of "[0x7E] @ stuff [4, 3]" q]
  by (simp add: gate_send_trxc_rsp_def sercomm_frame_def stuff_byte_def)

text \<open>What follows status 0 in the answer to a command with arguments.\<close>

definition trxc_suffix :: "u8 list \<Rightarrow> u8 list \<Rightarrow> u8 list" where
  "trxc_suffix verb args =
     (if verb = c_bytes ''POWERON'' \<or> verb = c_bytes ''POWEROFF'' then []
      else if verb = c_bytes ''NOMTXPOWER'' then c_bytes '' 50''
      else if verb = c_bytes ''MEASURE'' then [32] @ args @ c_bytes '' -60''
      else [32] @ args)"

text \<open>C35. Answering the transceiver control channel: in any state between two frames, a command with arguments of
  at most 490 bytes, verb included, framed by the host, is answered to the host with status 0 and what the verb calls
  for: nothing more for POWERON and POWEROFF, the power 50 for NOMTXPOWER, the arguments and the level -60 for MEASURE,
  the arguments for every other verb. Nothing of it reaches the firmware, and the gate is between two frames again
  afterwards.\<close>

theorem gate_trxc_answer:
  assumes "0 \<notin> set verb" and "32 \<notin> set verb" and "0 \<notin> set args" and "args \<noteq> []" and "last args \<noteq> 10"
    and "length verb + length args \<le> 490" and "gate_ready g"
  shows "let g' = sercomm_gate_feed stk g (sercomm_frame ([4, 3] @ c_bytes ''CMD '' @ verb @ [32] @ args))
    in guart g' = uart_emit (guart g) (UChrWrite (sercomm_frame ([4, 3] @ c_bytes ''RSP '' @ verb @ c_bytes '' 0'' @ trxc_suffix verb args @ [0])))
      \<and> gate_ready g'"
proof -
  define cmd where "cmd = c_bytes ''CMD '' @ verb @ [32] @ args"
  define rsp where "rsp = c_bytes ''RSP '' @ verb @ c_bytes '' 0'' @ trxc_suffix verb args @ [0]"
  let ?g = "g\<lparr>g_uart_known := True\<rparr>"
  have l: "length (trxc_suffix verb args) \<le> length args + 5" using assms(4) by (cases args) (simp_all add: trxc_suffix_def)
  have "gate_trxc_reply verb args = c_bytes ''RSP '' @ verb @ c_bytes '' 0'' @ trxc_suffix verb args"
    using assms(4) by (auto simp: gate_trxc_reply_def trxc_suffix_def)
  then have "gate_trxc_handle stk cmd = rsp"
    unfolding cmd_def rsp_def using assms(6) l by (subst gate_trxc_command [OF assms(1-5)]) (simp_all add: gate_rsp_def)
  moreover have "rsp \<noteq> []" "length rsp \<le> 509" "length cmd \<le> 510" using assms(6) l by (simp_all add: rsp_def cmd_def)
  moreover have "gate_ready ?g" using assms(7) by (simp add: gate_ready_def)
  ultimately have "sercomm_gate_feed stk g (sercomm_frame ([4, 3] @ cmd)) =
      gate_put SC_IN_FRAME [] (?g\<lparr>guart := uart_emit (guart g) (UChrWrite (sercomm_frame ([4, 3] @ rsp)))\<rparr>)"
    using gate_feed_frame [of ?g "[4, 3] @ cmd" stk]
    by (simp add: sercomm_gate_feed_def gate_frame_def gate_put_def gate_send_frame Let_def del: append_Cons append_Nil) (simp add: gate_send_frame)
  then show ?thesis unfolding cmd_def rsp_def Let_def by (simp add: gate_put_def gate_ready_def)
qed

theorem gate_trxc_answer_witness:
  "guart (sercomm_gate_feed (\<lambda>_. 0) (gate_init (uart_init None)) (sercomm_frame ([4, 3] @ c_bytes ''CMD '' @ c_bytes ''MEASURE'' @ [32] @ c_bytes ''935200''))) =
    uart_emit (uart_init None) (UChrWrite (sercomm_frame ([4, 3] @ c_bytes ''RSP MEASURE 0 935200 -60'' @ [0])))"
  using gate_trxc_answer [of "c_bytes ''MEASURE''" "c_bytes ''935200''" "gate_init (uart_init None)" "\<lambda>_. 0"]
  by (simp add: gate_init_def gate_ready_def trxc_suffix_def Let_def)

end
