(* ===== verification/Rf.thy ===== *)
theory Rf
  imports Calypso_Prelude
begin

text \<open>
  The radio front end as the TPU programs it: the serial port (\<open>hw/arm/calypso/calypso_tsp.c\<close>), the
  TRF6151 transceiver behind it (\<open>calypso_trf6151.c\<close>) and the ring in shared memory that tells the DSP
  process which frequency is tuned (\<open>calypso_rf_arfcn.h\<close>).

  The file-scope variables of the two source files are the fields of one record. The shared
  memory the first programming maps is the parameter \<open>shm\<close>: \<open>None\<close> when it cannot be mapped, otherwise
  what the file holds. The ring entries
  hold the 16-bit patterns the C casts store; the trace print is left out.
\<close>

section \<open>The transceiver\<close>

record rf_prog =
  pr_fn :: u32
  pr_qbit :: u16
  pr_arfcn :: u16
  pr_gain_db :: u16
  pr_reserve :: u16

record rf_ring =
  widx :: u32
  entry :: "nat \<Rightarrow> rf_prog"

record rf =
  g_reg_rx :: u16
  g_reg_pll :: u16
  g_reg_pwr :: u16
  tsp_tx :: "u8 list"
  tsp_ctrl1 :: u8
  shm_m :: "rf_ring option"
  shm_essaye :: bool

abbreviation (input) TRF6151_REG_RX_RESET :: u16 where "TRF6151_REG_RX_RESET \<equiv> 0x9E00"
abbreviation (input) TRF6151_BAND_1800 :: u16 where "TRF6151_BAND_1800 \<equiv> 2"
abbreviation (input) SYSTEM_INHERENT_GAIN :: int where "SYSTEM_INHERENT_GAIN \<equiv> 71"
abbreviation (input) TRF6151_FE_GAIN_LOW :: int where "TRF6151_FE_GAIN_LOW \<equiv> 7"
abbreviation (input) TRF6151_FE_GAIN_HIGH :: int where "TRF6151_FE_GAIN_HIGH \<equiv> 27"
abbreviation (input) TRF6151_VGA_GAIN_MIN :: int where "TRF6151_VGA_GAIN_MIN \<equiv> 14"

definition rf_init :: rf where
  "rf_init = \<lparr>g_reg_rx = TRF6151_REG_RX_RESET, g_reg_pll = 0, g_reg_pwr = 0, tsp_tx = [0, 0, 0, 0], tsp_ctrl1 = 0,
     shm_m = None, shm_essaye = False\<rparr>"

definition trf6151_gain_from_reg :: "u16 \<Rightarrow> int" where
  "trf6151_gain_from_reg reg_rx =
     (let sw = drop_bit 9 reg_rx AND 3;
          fe = (if sw = 0 then TRF6151_FE_GAIN_LOW else if sw = 3 then TRF6151_FE_GAIN_HIGH else 0);
          vga = uint (drop_bit 11 reg_rx AND 0x1f);
          vga = (if vga < 6 then 6 else vga)
      in fe + TRF6151_VGA_GAIN_MIN + (vga - 6) * 2)"

definition calypso_trf6151_tsp_write :: "u8 \<Rightarrow> u32 \<Rightarrow> rf \<Rightarrow> rf" where
  "calypso_trf6151_tsp_write dev_idx word s =
     (if dev_idx \<noteq> 1 \<and> dev_idx \<noteq> 2 then s
      else if word AND 0x7 = 0 then s\<lparr>g_reg_rx := ucast word\<rparr>
      else if word AND 0x7 = 1 then s\<lparr>g_reg_pll := ucast word\<rparr>
      else if word AND 0x7 = 2 then s\<lparr>g_reg_pwr := ucast word\<rparr>
      else s)"

text \<open>The frequency in units of 100 kHz, as both decoders compute it from the dividers.\<close>

definition trf_freq10 :: "rf \<Rightarrow> int" where
  "trf_freq10 s =
     (let a = uint (drop_bit 3 (g_reg_pll s) AND 0x3f);
          b = uint (drop_bit 9 (g_reg_pll s) AND 0x7f) + 64;
          n = b * 64 + a;
          high_band = (drop_bit 6 (g_reg_pwr s) AND 3 = TRF6151_BAND_1800)
      in if high_band then n * 2 else n)"

definition calypso_trf6151_arfcn :: "rf \<Rightarrow> int" where
  "calypso_trf6151_arfcn s =
     (let freq10 = trf_freq10 s
      in if g_reg_pll s = 0 then -1
         else if freq10 \<ge> 9350 \<and> freq10 \<le> 9598 then (freq10 - 9350) div 2
         else if freq10 \<ge> 9252 \<and> freq10 < 9350 then 1024 - (9350 - freq10) div 2
         else if freq10 \<ge> 18052 \<and> freq10 \<le> 18798 then 512 + (freq10 - 18052) div 2
         else if freq10 \<ge> 19302 \<and> freq10 \<le> 19898 then 512 + (freq10 - 19302) div 2
         else -1)"

definition calypso_trf6151_rf_flags :: "rf \<Rightarrow> u32" where
  "calypso_trf6151_rf_flags s =
     (let freq10 = trf_freq10 s;
          f = 0;
          f = (if bit (g_reg_pwr s) 11 then set_bit 15 f else f);
          f = (if bit (g_reg_pwr s) 13 then set_bit 14 f else f)
      in if g_reg_pll s = 0 then f
         else let ul = (if freq10 \<ge> 8902 \<and> freq10 \<le> 9148 then (freq10 - 8900) div 2
                        else if freq10 \<ge> 8802 \<and> freq10 < 8900 then 1024 - (8900 - freq10) div 2
                        else if freq10 \<ge> 17102 \<and> freq10 \<le> 17848 then 512 + (freq10 - 17102) div 2
                        else -1)
              in if ul \<ge> 0 then f OR (set_bit 13 0 OR (word_of_int ul AND 0x7ff)) else f)"

definition calypso_trf6151_total_gain_db :: "rf \<Rightarrow> int" where
  "calypso_trf6151_total_gain_db s = SYSTEM_INHERENT_GAIN + trf6151_gain_from_reg (g_reg_rx s)"

definition calypso_trf6151_apm_for_rf :: "rf \<Rightarrow> int \<Rightarrow> u16" where
  "calypso_trf6151_apm_for_rf s target_rf_dbm =
     (let total_gain = calypso_trf6151_total_gain_db s;
          bb_dbm = target_rf_dbm + total_gain;
          bb_dbm = (if bb_dbm < 0 then 0 else bb_dbm);
          apm = bb_dbm * 64;
          apm = (if apm < 64 then 64 else apm);
          apm = (if apm > 0xFFFF then 0xFFFF else apm)
      in word_of_int apm)"

section \<open>The serial port\<close>

abbreviation (input) TPUI_TSP_CTRL1 :: u8 where "TPUI_TSP_CTRL1 \<equiv> 0x00"
abbreviation (input) TPUI_TSP_CTRL2 :: u8 where "TPUI_TSP_CTRL2 \<equiv> 0x01"
abbreviation (input) TPUI_TX_3 :: u8 where "TPUI_TX_3 \<equiv> 0x02"
abbreviation (input) TPUI_TX_2 :: u8 where "TPUI_TX_2 \<equiv> 0x03"
abbreviation (input) TPUI_TX_1 :: u8 where "TPUI_TX_1 \<equiv> 0x04"
abbreviation (input) TPUI_TX_4 :: u8 where "TPUI_TX_4 \<equiv> 0x05"
abbreviation (input) CALYPSO_RF_ARFCN_N :: nat where "CALYPSO_RF_ARFCN_N \<equiv> 64"

definition rf_arfcn_publier :: "(nat \<Rightarrow> rf_prog) option \<Rightarrow> int \<Rightarrow> u32 \<Rightarrow> rf \<Rightarrow> rf" where
  "rf_arfcn_publier shm qbit fn s =
     (let s1 = (if shm_m s = None \<and> \<not> shm_essaye s
                then s\<lparr>shm_essaye := True, shm_m := map_option (\<lambda>e0. \<lparr>widx = 0, entry = e0\<rparr>) shm\<rparr>
                else s)
      in case shm_m s1 of
           None \<Rightarrow> s1
         | Some m \<Rightarrow>
             (let e = \<lparr>pr_fn = fn, pr_qbit = word_of_int qbit, pr_arfcn = word_of_int (calypso_trf6151_arfcn s1),
                       pr_gain_db = word_of_int (calypso_trf6151_total_gain_db s1),
                       pr_reserve = ucast (calypso_trf6151_rf_flags s1)\<rparr>
              in s1\<lparr>shm_m := Some (m\<lparr>entry := (entry m)(unat (widx m) mod CALYPSO_RF_ARFCN_N := e), widx := widx m + 1\<rparr>)\<rparr>))"

definition calypso_tsp_owns_addr :: "u8 \<Rightarrow> bool" where
  "calypso_tsp_owns_addr addr \<longleftrightarrow> addr \<in> set [0x00, 0x01, 0x04, 0x03, 0x02, 0x05, 0x06, 0x07, 0x09, 0x0a, 0x0b]"

text \<open>The word shifted out, by the number of bits of the transfer.\<close>

definition tsp_dout :: "u8 list \<Rightarrow> nat \<Rightarrow> u32" where
  "tsp_dout tx bitlen =
     (if bitlen \<le> 8 then ucast (tx ! 0)
      else if bitlen \<le> 16 then push_bit 8 (ucast (tx ! 0)) OR ucast (tx ! 1)
      else if bitlen \<le> 24 then push_bit 16 (ucast (tx ! 0)) OR push_bit 8 (ucast (tx ! 1)) OR ucast (tx ! 2)
      else push_bit 24 (ucast (tx ! 0)) OR push_bit 16 (ucast (tx ! 1)) OR push_bit 8 (ucast (tx ! 2)) OR ucast (tx ! 3))"

definition calypso_tsp_move :: "(nat \<Rightarrow> rf_prog) option \<Rightarrow> int \<Rightarrow> u8 \<Rightarrow> u8 \<Rightarrow> u32 \<Rightarrow> rf \<Rightarrow> rf" where
  "calypso_tsp_move shm qbit addr data fn s =
     (if addr = TPUI_TX_1 then s\<lparr>tsp_tx := (tsp_tx s)[0 := data]\<rparr>
      else if addr = TPUI_TX_2 then s\<lparr>tsp_tx := (tsp_tx s)[1 := data]\<rparr>
      else if addr = TPUI_TX_3 then s\<lparr>tsp_tx := (tsp_tx s)[2 := data]\<rparr>
      else if addr = TPUI_TX_4 then s\<lparr>tsp_tx := (tsp_tx s)[3 := data]\<rparr>
      else if addr = TPUI_TSP_CTRL1 then s\<lparr>tsp_ctrl1 := data\<rparr>
      else if addr = TPUI_TSP_CTRL2 then
        (if bit data 1 then
           (let dev_idx = drop_bit 5 (tsp_ctrl1 s) AND 0x07;
                bitlen = unat (tsp_ctrl1 s AND 0x1F) + 1;
                dout = tsp_dout (tsp_tx s) bitlen;
                s1 = calypso_trf6151_tsp_write dev_idx dout s
            in if (dev_idx = 1 \<or> dev_idx = 2) \<and> (dout AND 7 = 0 \<or> dout AND 7 = 1 \<or> dout AND 7 = 2)
               then rf_arfcn_publier shm qbit fn s1 else s1)
         else s)
      else s)"

section \<open>Tuning\<close>

lemma trf_divider: "(uint (drop_bit 9 x AND 0x7f) + 64) * 64 + uint (drop_bit 3 x AND 0x3f) = 4096 + uint x div 8" for x :: u16
proof -
  have lt: "uint x < 65536" using uint_lt2p [of x] by simp
  define n where "n = uint x div 8"
  have "uint (drop_bit 3 x AND 0x3f) = n mod 64"
    using lt by (simp add: n_def mask_take_bit unsigned_take_bit_eq unsigned_drop_bit_eq take_bit_int_def drop_bit_int_def)
  moreover have "uint (drop_bit 9 x AND 0x7f) = uint x div 512 mod 128"
    using lt by (simp add: mask_take_bit unsigned_take_bit_eq unsigned_drop_bit_eq take_bit_int_def drop_bit_int_def)
  moreover have "uint x div 512 mod 128 = uint x div 512"
    using lt by (intro mod_pos_pos_trivial int_div_lt) (simp_all add: pos_imp_zdiv_nonneg_iff)
  moreover have "uint x div 512 = n div 64" using zdiv_zmult2_eq [of 64 "uint x" 8] by (simp add: n_def)
  moreover have "n div 64 * 64 + n mod 64 = n" by (rule div_mult_mod_eq)
  ultimately show ?thesis unfolding n_def [symmetric] distrib_right by (simp only: add.assoc add.left_commute)
qed

lemma trf_freq10_eq:
  "trf_freq10 s = (if drop_bit 6 (g_reg_pwr s) AND 3 = 2 then (4096 + uint (g_reg_pll s) div 8) * 2 else 4096 + uint (g_reg_pll s) div 8)"
  unfolding trf_freq10_def Let_def trf_divider ..

text \<open>The channels of the four bands, their ARFCN and downlink frequency (3GPP TS 45.005, 2).\<close>

datatype rf_chan = Gsm900 nat | Egsm900 nat | Dcs1800 nat | Pcs1900 nat

fun rf_chan_valid :: "rf_chan \<Rightarrow> bool" where
  "rf_chan_valid (Gsm900 n) = (n \<le> 124)"
| "rf_chan_valid (Egsm900 n) = (975 \<le> n \<and> n \<le> 1023)"
| "rf_chan_valid (Dcs1800 n) = (512 \<le> n \<and> n \<le> 885)"
| "rf_chan_valid (Pcs1900 n) = (512 \<le> n \<and> n \<le> 810)"

fun rf_chan_arfcn :: "rf_chan \<Rightarrow> nat" where
  "rf_chan_arfcn (Gsm900 n) = n"
| "rf_chan_arfcn (Egsm900 n) = n"
| "rf_chan_arfcn (Dcs1800 n) = n"
| "rf_chan_arfcn (Pcs1900 n) = n"

fun rf_chan_high :: "rf_chan \<Rightarrow> bool" where
  "rf_chan_high (Dcs1800 n) = True"
| "rf_chan_high (Pcs1900 n) = True"
| "rf_chan_high _ = False"

fun rf_chan_dl :: "rf_chan \<Rightarrow> nat" where
  "rf_chan_dl (Gsm900 n) = 9350 + 2 * n"
| "rf_chan_dl (Egsm900 n) = 9350 + 2 * n - 2048"
| "rf_chan_dl (Dcs1800 n) = 18052 + 2 * (n - 512)"
| "rf_chan_dl (Pcs1900 n) = 19302 + 2 * (n - 512)"

text \<open>The PLL word for a frequency, and the moves that shift a 16-bit word out to a device.\<close>

definition trf_pll_word :: "bool \<Rightarrow> nat \<Rightarrow> u16" where
  "trf_pll_word high f = of_nat (((if high then f div 2 else f) - 4096) * 8 + 1)"

definition tsp_send :: "u8 \<Rightarrow> u16 \<Rightarrow> (u8 \<times> u8) list" where
  "tsp_send dev w = [(0x04, ucast (drop_bit 8 w)), (0x03, ucast w), (0x00, push_bit 5 dev OR 15), (0x01, 2)]"

definition tsp_moves :: "(nat \<Rightarrow> rf_prog) option \<Rightarrow> int \<Rightarrow> u32 \<Rightarrow> (u8 \<times> u8) list \<Rightarrow> rf \<Rightarrow> rf" where
  "tsp_moves shm qbit fn ms s = foldl (\<lambda>s (addr, data). calypso_tsp_move shm qbit addr data fn s) s ms"

lemma publier_regs [simp]:
  "g_reg_rx (rf_arfcn_publier shm q fn s) = g_reg_rx s" "g_reg_pll (rf_arfcn_publier shm q fn s) = g_reg_pll s"
  "g_reg_pwr (rf_arfcn_publier shm q fn s) = g_reg_pwr s" "tsp_tx (rf_arfcn_publier shm q fn s) = tsp_tx s"
  by (simp_all add: rf_arfcn_publier_def Let_def split: option.split)

lemma tsp_dout_16: "tsp_dout (ucast (drop_bit 8 w) # ucast w # r) 16 = ucast (w :: u16)"
proof (rule bit_word_eqI)
  fix n :: nat
  assume "n < LENGTH(32)"
  then consider "n < 8" | "8 \<le> n" "n < 16" | "16 \<le> n" "n < 32" by fastforce
  then show "bit (tsp_dout (ucast (drop_bit 8 w) # ucast w # r) 16) n = bit (ucast w :: u32) n"
    by cases (auto simp: tsp_dout_def bit_simps dest: bit_imp_le_length)
qed

lemma tsp_move_tx:
  "calypso_tsp_move shm q 0x04 d fn s = s\<lparr>tsp_tx := (tsp_tx s)[0 := d]\<rparr>"
  "calypso_tsp_move shm q 0x03 d fn s = s\<lparr>tsp_tx := (tsp_tx s)[1 := d]\<rparr>"
  "calypso_tsp_move shm q 0x00 d fn s = s\<lparr>tsp_ctrl1 := d\<rparr>"
  by (simp_all add: calypso_tsp_move_def)

lemma tsp_move_write:
  "calypso_tsp_move shm q 0x01 2 fn s =
     (let dev_idx = drop_bit 5 (tsp_ctrl1 s) AND 0x07;
          dout = tsp_dout (tsp_tx s) (unat (tsp_ctrl1 s AND 0x1F) + 1);
          s1 = calypso_trf6151_tsp_write dev_idx dout s
      in if (dev_idx = 1 \<or> dev_idx = 2) \<and> (dout AND 7 = 0 \<or> dout AND 7 = 1 \<or> dout AND 7 = 2)
         then rf_arfcn_publier shm q fn s1 else s1)"
  by (simp add: calypso_tsp_move_def)

lemma tsp_send_eq:
  assumes "length (tsp_tx s) = 4" and "dev = 1 \<or> dev = 2"
  shows "\<exists>tx c. length tx = 4 \<and> tsp_moves shm q fn (tsp_send dev w) s =
    (let s1 = calypso_trf6151_tsp_write dev (ucast w) (s\<lparr>tsp_tx := tx, tsp_ctrl1 := c\<rparr>)
     in if w AND 7 = 0 \<or> w AND 7 = 1 \<or> w AND 7 = 2 then rf_arfcn_publier shm q fn s1 else s1)"
proof -
  obtain a b c d where tx: "tsp_tx s = [a, b, c, d]"
    using assms(1) by (auto simp: length_Suc_conv numeral_eq_Suc)
  define k :: u8 where "k = push_bit 5 dev OR 15"
  have k: "drop_bit 5 k AND 7 = dev" "unat (k AND 0x1F) = 15"
    using assms(2) by (auto simp: k_def)
  have w7: "ucast w AND 7 = (ucast (w AND 7) :: u32)"
    by (auto simp: word_eq_bits bit_simps mask_take_bit)
  have "ucast w AND 7 = (0 :: u32) \<longleftrightarrow> w AND 7 = 0" "ucast w AND 7 = (1 :: u32) \<longleftrightarrow> w AND 7 = 1" "ucast w AND 7 = (2 :: u32) \<longleftrightarrow> w AND 7 = 2"
    unfolding w7 by (simp_all add: word_unat_eq_iff)
  then show ?thesis
    using assms(2) k unfolding tsp_moves_def tsp_send_def k_def [symmetric]
    by (intro exI [of _ "[ucast (drop_bit 8 w), ucast w, c, d]"] exI [of _ k])
       (simp add: tsp_move_tx tsp_move_write tx tsp_dout_16 Let_def)
qed

lemma tsp_send_regs:
  assumes "length (tsp_tx s) = 4" and "dev = 1 \<or> dev = 2"
  shows "length (tsp_tx (tsp_moves shm q fn (tsp_send dev w) s)) = 4"
    and "w AND 7 = 1 \<Longrightarrow> g_reg_pll (tsp_moves shm q fn (tsp_send dev w) s) = w
          \<and> g_reg_pwr (tsp_moves shm q fn (tsp_send dev w) s) = g_reg_pwr s"
    and "w AND 7 = 2 \<Longrightarrow> g_reg_pwr (tsp_moves shm q fn (tsp_send dev w) s) = w
          \<and> g_reg_pll (tsp_moves shm q fn (tsp_send dev w) s) = g_reg_pll s"
proof -
  have w7: "ucast w AND 7 = (ucast (w AND 7) :: u32)"
    by (auto simp: word_eq_bits bit_simps mask_take_bit)
  obtain tx c where "length tx = 4" and eq: "tsp_moves shm q fn (tsp_send dev w) s =
    (let s1 = calypso_trf6151_tsp_write dev (ucast w) (s\<lparr>tsp_tx := tx, tsp_ctrl1 := c\<rparr>)
     in if w AND 7 = 0 \<or> w AND 7 = 1 \<or> w AND 7 = 2 then rf_arfcn_publier shm q fn s1 else s1)"
    using tsp_send_eq [OF assms] by blast
  moreover have "tsp_tx (calypso_trf6151_tsp_write dev word t) = tsp_tx t" for word t
    by (simp add: calypso_trf6151_tsp_write_def)
  ultimately show "length (tsp_tx (tsp_moves shm q fn (tsp_send dev w) s)) = 4"
    by (simp add: Let_def)
  show "w AND 7 = 1 \<Longrightarrow> g_reg_pll (tsp_moves shm q fn (tsp_send dev w) s) = w
          \<and> g_reg_pwr (tsp_moves shm q fn (tsp_send dev w) s) = g_reg_pwr s"
    and "w AND 7 = 2 \<Longrightarrow> g_reg_pwr (tsp_moves shm q fn (tsp_send dev w) s) = w
          \<and> g_reg_pll (tsp_moves shm q fn (tsp_send dev w) s) = g_reg_pll s"
    using assms(2) unfolding eq by (auto simp: calypso_trf6151_tsp_write_def w7 Let_def)
qed

lemma trf_pll_word_props:
  assumes "4096 \<le> n" and "n < 12288" and "n = (if high then f div 2 else f)"
  shows "trf_pll_word high f AND 7 = 1" and "uint (trf_pll_word high f) div 8 = int n - 4096" and "trf_pll_word high f \<noteq> 0"
proof -
  have u: "unat (trf_pll_word high f) = (n - 4096) * 8 + 1"
    unfolding trf_pll_word_def assms(3) [symmetric] using assms(1,2) by (intro unat_of_nat_u16) simp
  have "((n - 4096) * 8 + 1) mod 8 = (1 :: nat)" by (subst mod_mult_self3) simp
  with u have "unat (trf_pll_word high f AND 7) = 1"
    by (simp add: mask_take_bit unsigned_take_bit_eq take_bit_nat_def)
  then show "trf_pll_word high f AND 7 = 1" by (simp add: word_unat_eq_iff)
  have "unat (trf_pll_word high f) div 8 = n - 4096" unfolding u by simp
  then show "uint (trf_pll_word high f) div 8 = int n - 4096"
    using assms(1) by (metis of_nat_diff of_nat_numeral uint_nat zdiv_int)
  show "trf_pll_word high f \<noteq> 0" using u by auto
qed

text \<open>C20. Tuning round trip: after the TPU has shifted a power word and the PLL word of a channel out to the
  transceiver, the tuned ARFCN is that of the channel, for every channel of the GSM 900, E-GSM, DCS and PCS bands.\<close>

theorem rf_tune_roundtrip:
  assumes "rf_chan_valid c" and "length (tsp_tx s) = 4" and "dev = 1 \<or> dev = 2"
    and "pwr AND 7 = 2" and "drop_bit 6 pwr AND 3 = 2 \<longleftrightarrow> rf_chan_high c"
  shows "calypso_trf6151_arfcn (tsp_moves shm q fn (tsp_send dev pwr @ tsp_send dev (trf_pll_word (rf_chan_high c) (rf_chan_dl c))) s)
    = int (rf_chan_arfcn c)"
proof -
  define n where "n = (if rf_chan_high c then rf_chan_dl c div 2 else rf_chan_dl c)"
  have n: "4096 \<le> n" "n < 12288" using assms(1) by (cases c; simp add: n_def)+
  let ?w = "trf_pll_word (rf_chan_high c) (rf_chan_dl c)"
  note w = trf_pll_word_props [OF n n_def]
  define s1 where "s1 = tsp_moves shm q fn (tsp_send dev pwr) s"
  define s2 where "s2 = tsp_moves shm q fn (tsp_send dev ?w) s1"
  have s1: "length (tsp_tx s1) = 4" "g_reg_pwr s1 = pwr"
    using tsp_send_regs [OF assms(2,3)] assms(4) by (simp_all add: s1_def)
  have s2: "g_reg_pll s2 = ?w" "g_reg_pwr s2 = pwr"
    using tsp_send_regs(2) [OF s1(1) assms(3) w(1)] s1(2) by (simp_all add: s2_def)
  have f: "trf_freq10 s2 = int (rf_chan_dl c)"
    unfolding trf_freq10_eq s2 w(2) assms(5) using assms(1) by (cases c) (auto simp: n_def)
  have "calypso_trf6151_arfcn s2 = int (rf_chan_arfcn c)"
    unfolding calypso_trf6151_arfcn_def f Let_def using assms(1) w(3) s2(1) by (cases c) auto
  then show ?thesis by (simp add: tsp_moves_def s1_def s2_def)
qed

theorem rf_tune_roundtrip_witness:
  "calypso_trf6151_arfcn (tsp_moves None 0 0 (tsp_send 1 0x82 @ tsp_send 1 (trf_pll_word True 18094)) rf_init) = 533"
  using rf_tune_roundtrip [of "Dcs1800 533" rf_init 1 "0x82" None 0 0] by (simp add: rf_init_def)

text \<open>C36. The uplink of ARFCN 0 is not recognised: with the receiver tuned to 890.0 MHz, the uplink frequency
  of ARFCN 0, the flags carry no uplink mark, while its downlink frequency decodes to ARFCN 0 and the
  neighbouring uplink frequencies of ARFCN 1 and 1023 are marked.\<close>

theorem rf_uplink_arfcn0_missed:
  assumes "g_reg_pll s \<noteq> 0" and "trf_freq10 s = 8900" and "trf_freq10 u = 8902" and "g_reg_pll u \<noteq> 0"
    and "trf_freq10 v = 8898" and "g_reg_pll v \<noteq> 0"
  shows "\<not> bit (calypso_trf6151_rf_flags s) 13 \<and> bit (calypso_trf6151_rf_flags u) 13 \<and> bit (calypso_trf6151_rf_flags v) 13"
  using assms by (simp add: calypso_trf6151_rf_flags_def bit_simps Let_def)

definition rf_tuned :: "nat \<Rightarrow> rf" where
  "rf_tuned f = rf_init\<lparr>g_reg_pll := trf_pll_word False f\<rparr>"

lemma rf_tuned_freq: "4096 \<le> f \<Longrightarrow> f < 12288 \<Longrightarrow> trf_freq10 (rf_tuned f) = int f" "4096 \<le> f \<Longrightarrow> f < 12288 \<Longrightarrow> g_reg_pll (rf_tuned f) \<noteq> 0"
  using trf_pll_word_props [of f False f] by (simp_all add: rf_tuned_def trf_freq10_eq rf_init_def)

theorem rf_uplink_arfcn0_missed_witness:
  "\<not> bit (calypso_trf6151_rf_flags (rf_tuned 8900)) 13 \<and> bit (calypso_trf6151_rf_flags (rf_tuned 8902)) 13
   \<and> bit (calypso_trf6151_rf_flags (rf_tuned 8898)) 13"
  using rf_uplink_arfcn0_missed [of "rf_tuned 8900" "rf_tuned 8902" "rf_tuned 8898"] by (simp add: rf_tuned_freq)

lemma trf_gain_bounds: "14 \<le> trf6151_gain_from_reg r" "trf6151_gain_from_reg r \<le> 91"
proof -
  have "uint (drop_bit 11 r AND 0x1f) \<le> 31"
    using uint_lt2p [of r] by (simp add: mask_take_bit unsigned_take_bit_eq take_bit_int_def)
  then show "14 \<le> trf6151_gain_from_reg r" "trf6151_gain_from_reg r \<le> 91"
    by (auto simp: trf6151_gain_from_reg_def Let_def)
qed

text \<open>C37. The power measurement the emulated DSP reports: with every gain setting and every level up to
  -40 dBm it is 64 per dB above the floor of 64, never 0 and never saturated.\<close>

theorem trf_apm_exact:
  assumes "- 2000 \<le> rf" and "rf \<le> -40"
  shows "uint (calypso_trf6151_apm_for_rf s rf) = 64 * max 1 (rf + calypso_trf6151_total_gain_db s)
    \<and> 64 \<le> uint (calypso_trf6151_apm_for_rf s rf) \<and> uint (calypso_trf6151_apm_for_rf s rf) < 0xFFFF"
proof -
  define g where "g = calypso_trf6151_total_gain_db s"
  define m where "m = max 1 (rf + g)"
  have "85 \<le> g" "g \<le> 162" using trf_gain_bounds [of "g_reg_rx s"] by (simp_all add: g_def calypso_trf6151_total_gain_db_def)
  then have m: "m \<le> 122" "1 \<le> m" using assms by (auto simp: m_def)
  have "calypso_trf6151_apm_for_rf s rf = word_of_int (64 * m)"
    using assms \<open>g \<le> 162\<close> by (auto simp: calypso_trf6151_apm_for_rf_def g_def [symmetric] m_def max_def Let_def intro!: arg_cong [where f = word_of_int])
  moreover have "uint (word_of_int (64 * m) :: u16) = 64 * m"
    unfolding uint_word_of_int using m by (intro mod_pos_pos_trivial) simp_all
  ultimately have "uint (calypso_trf6151_apm_for_rf s rf) = 64 * m" by (simp only:)
  with m show ?thesis unfolding g_def [symmetric] m_def [symmetric] by simp
qed

theorem trf_apm_exact_witness:
  "uint (calypso_trf6151_apm_for_rf rf_init (-62)) = 64 * (-62 + calypso_trf6151_total_gain_db rf_init)
   \<and> calypso_trf6151_total_gain_db rf_init = 138"
proof -
  have "calypso_trf6151_total_gain_db rf_init = 138" by code_simp
  then show ?thesis using trf_apm_exact [of "-62" rf_init] by simp
qed

end
