(* ===== verification/Tpu.thy ===== *)
theory Tpu
  imports Rf
begin

text \<open>
  The TPU sequencer, \<open>hw/arm/calypso/calypso_tpu.c\<close>: it runs a scenario of up to 1024 instructions
  from a copy of the TPU RAM, moves bytes to the serial port, and suspends for whole frames.

  \<open>insns\<close> is the array of 1024 words; \<open>tpu_regs\<close> is the register array of the caller it may write to
  (\<open>None\<close> for a null pointer). The loop ends because every turn advances the cursor.
\<close>

section \<open>State and operations\<close>

record tpu =
  insns :: "nat \<Rightarrow> u16"
  seq_len :: nat
  cursor :: nat
  qbit :: int
  wait_frames :: int
  active :: bool
  tpu_regs :: "(nat \<Rightarrow> u16) option"
  front_end :: rf

abbreviation (input) CALYPSO_TPU_RAM_SIZE :: nat where "CALYPSO_TPU_RAM_SIZE \<equiv> 0x0800"
abbreviation (input) QBITS_PER_TDMA :: int where "QBITS_PER_TDMA \<equiv> 5000"
abbreviation (input) TPU_OP_AT :: u16 where "TPU_OP_AT \<equiv> 1"
abbreviation (input) TPU_OP_OFFSET :: u16 where "TPU_OP_OFFSET \<equiv> 2"
abbreviation (input) TPU_OP_SYNCHRO :: u16 where "TPU_OP_SYNCHRO \<equiv> 3"
abbreviation (input) TPU_OP_MOVE :: u16 where "TPU_OP_MOVE \<equiv> 4"
abbreviation (input) TPU_OP_WAIT :: u16 where "TPU_OP_WAIT \<equiv> 5"
abbreviation (input) TPU_OFFSET :: nat where "TPU_OFFSET \<equiv> 0x0C"
abbreviation (input) TPU_SYNCHRO :: nat where "TPU_SYNCHRO \<equiv> 0x0E"

text \<open>The fields of an instruction: opcode and payload, and for \<open>MOVE\<close> the address and the data.\<close>

definition tpu_opcode :: "u16 \<Rightarrow> u16" where "tpu_opcode insn = drop_bit 13 insn AND 0x7"
definition tpu_payload :: "u16 \<Rightarrow> u16" where "tpu_payload insn = insn AND 0x1FFF"
definition tpu_move_addr :: "u16 \<Rightarrow> u8" where "tpu_move_addr insn = ucast (insn AND 0x1F)"
definition tpu_move_data :: "u16 \<Rightarrow> u8" where "tpu_move_data insn = ucast (drop_bit 5 insn AND 0xFF)"

text \<open>One turn of the loop of \<open>seq_run\<close>; the flag says that the function returns there.\<close>

definition seq_step :: "(nat \<Rightarrow> rf_prog) option \<Rightarrow> u32 \<Rightarrow> tpu \<Rightarrow> bool \<times> tpu" where
  "seq_step shm fn s =
     (let insn = insns s (cursor s)
      in if insn = 0 then
           (let nxt = cursor s + 1;
                had_any = cursor s > 0
            in if had_any \<and> (nxt \<ge> seq_len s \<or> insns s nxt = 0) then (True, s\<lparr>active := False\<rparr>)
               else (False, s\<lparr>cursor := cursor s + 1\<rparr>))
         else let opcode = tpu_opcode insn;
                  payload = uint (tpu_payload insn);
                  s1 = s\<lparr>cursor := cursor s + 1\<rparr>
              in if opcode = TPU_OP_AT then
                   (if payload > qbit s1 then (False, s1\<lparr>qbit := payload\<rparr>)
                    else (True, s1\<lparr>qbit := payload, wait_frames := 1\<rparr>))
                 else if opcode = TPU_OP_WAIT then
                   (let target = qbit s1 + payload
                    in if target < QBITS_PER_TDMA then (False, s1\<lparr>qbit := target\<rparr>)
                       else (True, s1\<lparr>wait_frames := target div QBITS_PER_TDMA, qbit := target mod QBITS_PER_TDMA\<rparr>))
                 else if opcode = TPU_OP_SYNCHRO \<or> opcode = TPU_OP_OFFSET then
                   (False, s1\<lparr>tpu_regs := map_option
                       (\<lambda>r. r((if opcode = TPU_OP_SYNCHRO then TPU_SYNCHRO else TPU_OFFSET) div 2 := tpu_payload insn)) (tpu_regs s1)\<rparr>)
                 else if opcode = TPU_OP_MOVE then
                   (let addr = tpu_move_addr insn;
                        data = tpu_move_data insn
                    in (False, if calypso_tsp_owns_addr addr
                               then s1\<lparr>front_end := calypso_tsp_move shm (qbit s) addr data fn (front_end s1)\<rparr> else s1))
                 else (False, s1))"

lemma seq_step_cursor: "seq_step shm fn s = (False, t) \<Longrightarrow> cursor t = Suc (cursor s) \<and> seq_len t = seq_len s \<and> insns t = insns s"
  by (auto simp: seq_step_def Let_def split: if_splits)

function seq_run :: "(nat \<Rightarrow> rf_prog) option \<Rightarrow> u32 \<Rightarrow> tpu \<Rightarrow> tpu" where
  "seq_run shm fn s =
     (if active s \<and> cursor s < seq_len s then
        (case seq_step shm fn s of
           (True, t) \<Rightarrow> t
         | (False, t) \<Rightarrow> seq_run shm fn t)
      else s\<lparr>active := False\<rparr>)"
  by pat_completeness auto
termination
  by (relation "measure (\<lambda>(shm, fn, s). seq_len s - cursor s)") (auto dest!: seq_step_cursor [OF sym])

declare seq_run.simps [simp del]

definition calypso_tpu_qbit :: "tpu \<Rightarrow> int" where
  "calypso_tpu_qbit s = qbit s"

definition calypso_tpu_run_scenario ::
  "(nat \<Rightarrow> rf_prog) option \<Rightarrow> (nat \<Rightarrow> u16) \<Rightarrow> u32 \<Rightarrow> (nat \<Rightarrow> u16) option \<Rightarrow> tpu \<Rightarrow> tpu" where
  "calypso_tpu_run_scenario shm ram fn regs s =
     seq_run shm fn (s\<lparr>insns := ram, seq_len := CALYPSO_TPU_RAM_SIZE div 2, cursor := 0, qbit := 0, wait_frames := 0,
                       tpu_regs := regs, active := True\<rparr>)"

definition calypso_tpu_sequencer_tick :: "(nat \<Rightarrow> rf_prog) option \<Rightarrow> u32 \<Rightarrow> tpu \<Rightarrow> tpu" where
  "calypso_tpu_sequencer_tick shm fn s =
     (if \<not> active s \<or> wait_frames s \<le> 0 then s
      else let s1 = s\<lparr>wait_frames := wait_frames s - 1\<rparr>
           in if wait_frames s1 > 0 then s1 else seq_run shm fn s1)"

section \<open>Every scenario ends\<close>

text \<open>A suspended sequencer waits for one to three frames, and its position stays in range.\<close>

definition tpu_pos :: "tpu \<Rightarrow> bool" where
  "tpu_pos s \<longleftrightarrow> cursor s \<le> seq_len s \<and> 0 \<le> qbit s \<and> qbit s \<le> 8191"

definition tpu_susp :: "tpu \<Rightarrow> bool" where
  "tpu_susp s \<longleftrightarrow> tpu_pos s \<and> (active s \<longrightarrow> 1 \<le> wait_frames s \<and> wait_frames s \<le> 3)"

lemma tpu_payload_bounds: "0 \<le> uint (tpu_payload insn)" "uint (tpu_payload insn) \<le> 8191"
  by (simp_all add: tpu_payload_def mask_take_bit unsigned_take_bit_eq take_bit_int_def)

lemma tpu_wait_bounds:
  assumes "0 \<le> q" "q \<le> 8191" "0 \<le> p" "p \<le> (8191 :: int)" "5000 \<le> q + p"
  shows "1 \<le> (q + p) div 5000" "(q + p) div 5000 \<le> 3" "0 \<le> (q + p) mod 5000" "(q + p) mod 5000 \<le> 8191"
  using assms int_div_lt [of 5000 "q + p" 4] pos_mod_bound [of 5000 "q + p"]
  by (auto simp: zdiv_mono1 [of 5000 "q + p" 5000, simplified] less_imp_le)

lemma seq_step_pos_case:
  assumes "tpu_pos s" and "cursor s < seq_len s" and "active s"
  shows "case seq_step shm fn s of (stop, t) \<Rightarrow> tpu_pos t \<and> seq_len t = seq_len s
    \<and> (if stop then active t \<longrightarrow> cursor s < cursor t \<and> 1 \<le> wait_frames t \<and> wait_frames t \<le> 3
       else active t \<and> cursor t = Suc (cursor s))"
proof -
  define insn where "insn = insns s (cursor s)"
  define p where "p = uint (tpu_payload insn)"
  have q: "0 \<le> qbit s" "qbit s \<le> 8191" and p: "0 \<le> p" "p \<le> 8191"
    using assms(1) tpu_payload_bounds by (simp_all add: tpu_pos_def p_def)
  note w = tpu_wait_bounds [OF q p]
  show ?thesis
    using assms q p w(1, 2) w(3, 4)
    unfolding seq_step_def Let_def insn_def [symmetric] p_def [symmetric] tpu_pos_def
    by (simp split: if_split)
qed

lemma seq_step_pos:
  assumes "seq_step shm fn s = (stop, t)" and "tpu_pos s" and "cursor s < seq_len s" and "active s"
  shows "tpu_pos t \<and> seq_len t = seq_len s
    \<and> (if stop then active t \<longrightarrow> cursor s < cursor t \<and> 1 \<le> wait_frames t \<and> wait_frames t \<le> 3
       else active t \<and> cursor t = Suc (cursor s))"
  using seq_step_pos_case [OF assms(2-4), of shm fn] assms(1) by simp

text \<open>The three ways a turn of the loop can go.\<close>

lemma seq_run_idle: "\<not> (active s \<and> cursor s < seq_len s) \<Longrightarrow> seq_run shm fn s = s\<lparr>active := False\<rparr>"
  by (subst seq_run.simps) auto

lemma seq_run_stop:
  "active s \<Longrightarrow> cursor s < seq_len s \<Longrightarrow> seq_step shm fn s = (True, t) \<Longrightarrow> seq_run shm fn s = t"
  by (subst seq_run.simps) simp

lemma seq_run_next:
  "active s \<Longrightarrow> cursor s < seq_len s \<Longrightarrow> seq_step shm fn s = (False, t) \<Longrightarrow> seq_run shm fn s = seq_run shm fn t"
  by (subst seq_run.simps) simp

lemma seq_run_cases:
  assumes idle: "\<And>s. \<not> (active s \<and> cursor s < seq_len s) \<Longrightarrow> P s (s\<lparr>active := False\<rparr>)"
    and stop: "\<And>s t. active s \<Longrightarrow> cursor s < seq_len s \<Longrightarrow> seq_step shm fn s = (True, t) \<Longrightarrow> P s t"
    and nxt: "\<And>s t. active s \<Longrightarrow> cursor s < seq_len s \<Longrightarrow> seq_step shm fn s = (False, t)
        \<Longrightarrow> P t (seq_run shm fn t) \<Longrightarrow> P s (seq_run shm fn t)"
  shows "P s (seq_run shm fn s)"
proof (induction "seq_len s - cursor s" arbitrary: s rule: less_induct)
  case less
  show ?case
  proof (cases "active s \<and> cursor s < seq_len s")
    case False
    then show ?thesis using idle by (simp add: seq_run_idle)
  next
    case True
    obtain b t where st: "seq_step shm fn s = (b, t)" by (cases "seq_step shm fn s")
    show ?thesis
    proof (cases b)
      case True
      then show ?thesis using st \<open>active s \<and> cursor s < seq_len s\<close> stop seq_run_stop by metis
    next
      case False
      then have "P t (seq_run shm fn t)" using less.hyps [of t] st True seq_step_cursor [of shm fn s t] by (simp add: diff_less_mono2)
      then show ?thesis using st True False nxt [of s t] seq_run_next [of s shm fn t] by simp
    qed
  qed
qed

lemma seq_run_susp:
  "tpu_pos s \<longrightarrow> tpu_susp (seq_run shm fn s) \<and> seq_len (seq_run shm fn s) = seq_len s
    \<and> (active (seq_run shm fn s) \<longrightarrow> cursor s < cursor (seq_run shm fn s))"
proof (rule seq_run_cases)
  fix s :: tpu assume "\<not> (active s \<and> cursor s < seq_len s)"
  then show "tpu_pos s \<longrightarrow> tpu_susp (s\<lparr>active := False\<rparr>) \<and> seq_len (s\<lparr>active := False\<rparr>) = seq_len s
    \<and> (active (s\<lparr>active := False\<rparr>) \<longrightarrow> cursor s < cursor (s\<lparr>active := False\<rparr>))"
    by (simp add: tpu_susp_def tpu_pos_def)
qed (auto dest!: seq_step_pos simp: tpu_susp_def)

text \<open>The frames a suspended scenario can still take.\<close>

definition tpu_left :: "tpu \<Rightarrow> nat" where
  "tpu_left s = (if active s then 3 * (seq_len s - cursor s) + nat (wait_frames s) else 0)"

lemma tpu_tick_left:
  assumes "tpu_susp s"
  shows "tpu_susp (calypso_tpu_sequencer_tick shm fn s)"
    and "active s \<Longrightarrow> tpu_left (calypso_tpu_sequencer_tick shm fn s) < tpu_left s"
    and "\<not> active s \<Longrightarrow> calypso_tpu_sequencer_tick shm fn s = s"
proof -
  let ?s = "s\<lparr>wait_frames := wait_frames s - 1\<rparr>"
  note r = seq_run_susp [of ?s shm fn]
  show "tpu_susp (calypso_tpu_sequencer_tick shm fn s)"
    using assms r by (auto simp: calypso_tpu_sequencer_tick_def Let_def tpu_susp_def tpu_pos_def)
  show "tpu_left (calypso_tpu_sequencer_tick shm fn s) < tpu_left s" if "active s"
    using assms r that
    by (auto simp: calypso_tpu_sequencer_tick_def Let_def tpu_susp_def tpu_pos_def tpu_left_def)
  show "\<not> active s \<Longrightarrow> calypso_tpu_sequencer_tick shm fn s = s"
    by (simp add: calypso_tpu_sequencer_tick_def)
qed

abbreviation tpu_ticks :: "(nat \<Rightarrow> rf_prog) option \<Rightarrow> u32 list \<Rightarrow> tpu \<Rightarrow> tpu" where
  "tpu_ticks shm fns s \<equiv> fold (calypso_tpu_sequencer_tick shm) fns s"

lemma tpu_ticks_end: "tpu_susp s \<Longrightarrow> tpu_left s \<le> length fns \<Longrightarrow> \<not> active (tpu_ticks shm fns s)"
proof (induction fns arbitrary: s)
  case Nil
  then show ?case by (auto simp: tpu_left_def tpu_susp_def)
next
  case (Cons fn fns)
  have "tpu_left (calypso_tpu_sequencer_tick shm fn s) \<le> length fns"
  proof (cases "active s")
    case True
    then show ?thesis using tpu_tick_left(2) [OF Cons.prems(1) True, of shm fn] Cons.prems(2) by simp
  next
    case False
    then show ?thesis using tpu_tick_left(3) [OF Cons.prems(1) False, of shm fn] by (simp add: tpu_left_def)
  qed
  then show ?case using Cons.IH tpu_tick_left(1) [OF Cons.prems(1)] by simp
qed

lemma tpu_scenario_susp:
  "tpu_susp (calypso_tpu_run_scenario shm ram fn regs s) \<and> tpu_left (calypso_tpu_run_scenario shm ram fn regs s) \<le> 3072"
  using seq_run_susp [of "s\<lparr>insns := ram, seq_len := CALYPSO_TPU_RAM_SIZE div 2, cursor := 0, qbit := 0, wait_frames := 0,
                       tpu_regs := regs, active := True\<rparr>" shm fn]
  by (auto simp: calypso_tpu_run_scenario_def tpu_pos_def tpu_susp_def tpu_left_def)

text \<open>C21. Every scenario ends: whatever the TPU RAM holds, the sequencer is inactive after at most 3072 frame ticks
  (1024 instructions, each waiting for at most three frames), so no program can keep the radio window open
  for ever.\<close>

theorem tpu_scenario_ends:
  assumes "3072 \<le> length fns"
  shows "\<not> active (tpu_ticks shm fns (calypso_tpu_run_scenario shm ram fn regs s))"
  using assms tpu_scenario_susp [of shm ram fn regs s] by (intro tpu_ticks_end) auto

definition tpu_init :: tpu where
  "tpu_init = \<lparr>insns = \<lambda>_. 0, seq_len = 0, cursor = 0, qbit = 0, wait_frames = 0, active = False, tpu_regs = None,
                front_end = rf_init\<rparr>"

theorem tpu_scenario_ends_witness:
  "\<not> active (tpu_ticks None (replicate 3072 7) (calypso_tpu_run_scenario None (\<lambda>_. 0xBFFF) 6 None tpu_init))"
  by (rule tpu_scenario_ends) (simp only: length_replicate order_refl)

section \<open>The program's timeline\<close>

text \<open>What a TPU program means, without suspension: the front-end writes it makes, each with the frame (counted
  from the frame that started the scenario) and the quarter bit at which it is made.  \<open>AT\<close> goes to the next
  occurrence of a quarter bit, \<open>WAIT\<close> adds quarter bits, and 5000 of them make a frame.\<close>

definition tpu_meaning :: "(nat \<Rightarrow> u16) \<Rightarrow> nat \<Rightarrow> nat \<Rightarrow> int \<Rightarrow> nat \<times> int \<times> (int \<times> u8 \<times> u8) list" where
  "tpu_meaning prog pc f q =
     (let insn = prog pc; opcode = tpu_opcode insn; p = uint (tpu_payload insn);
          addr = tpu_move_addr insn; data = tpu_move_data insn
      in if insn = 0 then (f, q, [])
         else if opcode = TPU_OP_AT then (if q < p then f else f + 1, p, [])
         else if opcode = TPU_OP_WAIT then (f + nat ((q + p) div QBITS_PER_TDMA), (q + p) mod QBITS_PER_TDMA, [])
         else if opcode = TPU_OP_MOVE \<and> calypso_tsp_owns_addr addr then (f, q, [(q, addr, data)])
         else (f, q, []))"

definition tpu_over :: "(nat \<Rightarrow> u16) \<Rightarrow> nat \<Rightarrow> nat \<Rightarrow> bool" where
  "tpu_over prog n pc \<longleftrightarrow> n \<le> pc \<or> prog pc = 0 \<and> 0 < pc \<and> (n \<le> pc + 1 \<or> prog (pc + 1) = 0)"

function tpu_timeline :: "(nat \<Rightarrow> u16) \<Rightarrow> nat \<Rightarrow> nat \<Rightarrow> nat \<Rightarrow> int \<Rightarrow> (nat \<times> int \<times> u8 \<times> u8) list" where
  "tpu_timeline prog n pc f q =
     (if tpu_over prog n pc then []
      else case tpu_meaning prog pc f q of (f', q', es) \<Rightarrow> map (Pair f) es @ tpu_timeline prog n (Suc pc) f' q')"
  by pat_completeness auto
termination by (relation "measure (\<lambda>(prog, n, pc, f, q). n - pc)") (auto simp: tpu_over_def)

declare tpu_timeline.simps [simp del]

lemma tpu_timeline_done: "tpu_over prog n pc \<Longrightarrow> tpu_timeline prog n pc f q = []"
  by (simp add: tpu_timeline.simps)

lemma tpu_timeline_step: "\<not> tpu_over prog n pc \<Longrightarrow> tpu_meaning prog pc f q = (f', q', es)
    \<Longrightarrow> tpu_timeline prog n pc f q = map (Pair f) es @ tpu_timeline prog n (Suc pc) f' q'"
  by (simp add: tpu_timeline.simps [of prog n pc])

definition tpu_later :: "nat \<Rightarrow> nat \<times> int \<times> u8 \<times> u8 \<Rightarrow> nat \<times> int \<times> u8 \<times> u8" where
  "tpu_later k e = (fst e + k, snd e)"

lemma tpu_meaning_later: "tpu_meaning prog pc (f + k) q = (case tpu_meaning prog pc f q of (f', q', es) \<Rightarrow> (f' + k, q', es))"
  by (simp add: tpu_meaning_def Let_def)

lemma tpu_timeline_later: "tpu_timeline prog n pc (f + k) q = map (tpu_later k) (tpu_timeline prog n pc f q)"
proof (induction "n - pc" arbitrary: pc f q rule: less_induct)
  case less
  obtain f' q' es where m: "tpu_meaning prog pc f q = (f', q', es)" by (cases "tpu_meaning prog pc f q")
  then have mk: "tpu_meaning prog pc (f + k) q = (f' + k, q', es)" by (simp add: tpu_meaning_later)
  show ?case
  proof (cases "tpu_over prog n pc")
    case True
    then show ?thesis by (simp add: tpu_timeline_done)
  next
    case False
    then have "n - Suc pc < n - pc" by (auto simp: tpu_over_def)
    from less(1) [OF this, of f' q'] show ?thesis
      by (simp add: tpu_timeline_step [OF False m] tpu_timeline_step [OF False mk] tpu_later_def)
  qed
qed

lemma tpu_timeline_from: "e \<in> set (tpu_timeline prog n pc f q) \<Longrightarrow> f \<le> fst e"
  using tpu_timeline_later [of prog n pc 0 f q] by (auto simp: tpu_later_def)

lemma tpu_timeline_sorted: "sorted (map fst (tpu_timeline prog n pc f q))"
proof (induction "n - pc" arbitrary: pc f q rule: less_induct)
  case less
  obtain f' q' es where m: "tpu_meaning prog pc f q = (f', q', es)" by (cases "tpu_meaning prog pc f q")
  then have le: "f \<le> f'" "length es \<le> 1" by (auto simp: tpu_meaning_def Let_def split: if_splits)
  show ?case
  proof (cases "tpu_over prog n pc")
    case True
    then show ?thesis by (simp add: tpu_timeline_done)
  next
    case False
    then have "n - Suc pc < n - pc" by (auto simp: tpu_over_def)
    moreover have "sorted (map fst (map (Pair f) es))" using le by (cases es) auto
    ultimately show ?thesis
      using le less(1) [of "Suc pc" f' q'] by (auto simp: tpu_timeline_step [OF False m] sorted_append dest!: tpu_timeline_from intro: le_trans)
  qed
qed

text \<open>The front-end writes of a list of timeline entries, made in the frame number \<open>fn\<close>.\<close>

definition tsp_play :: "(nat \<Rightarrow> rf_prog) option \<Rightarrow> (nat \<Rightarrow> u32) \<Rightarrow> (nat \<times> int \<times> u8 \<times> u8) list \<Rightarrow> rf \<Rightarrow> rf" where
  "tsp_play shm fno es = fold (\<lambda>(f, q, addr, data). calypso_tsp_move shm q addr data (fno f)) es"

text \<open>What a suspended sequencer has still to do, in frames from now.\<close>

definition tpu_pending :: "tpu \<Rightarrow> (nat \<times> int \<times> u8 \<times> u8) list" where
  "tpu_pending s = (if active s then tpu_timeline (insns s) (seq_len s) (cursor s) (nat (wait_frames s)) (qbit s) else [])"

definition tpu_here :: "tpu \<Rightarrow> (nat \<times> int \<times> u8 \<times> u8) list" where
  "tpu_here s = tpu_timeline (insns s) (seq_len s) (cursor s) 0 (qbit s)"

lemma seq_step_meaning_case:
  assumes "0 \<le> qbit s" and "\<not> tpu_over (insns s) (seq_len s) (cursor s)"
    and "tpu_meaning (insns s) (cursor s) 0 (qbit s) = (f', q', es)"
  shows "case seq_step shm fn s of (stop, t) \<Rightarrow> active t = active s \<and> cursor t = Suc (cursor s) \<and> seq_len t = seq_len s
      \<and> insns t = insns s \<and> qbit t = q' \<and> 0 \<le> q' \<and> front_end t = tsp_play shm (\<lambda>_. fn) (map (Pair 0) es) (front_end s)
      \<and> (if stop then nat (wait_frames t) = f' \<and> 0 < f' \<and> es = [] else f' = 0)"
proof -
  define insn where "insn = insns s (cursor s)"
  define p where "p = uint (tpu_payload insn)"
  have p: "0 \<le> p" using tpu_payload_bounds by (simp_all add: p_def)
  have w: "qbit s + p < 5000 \<Longrightarrow> (qbit s + p) mod 5000 = qbit s + p \<and> (qbit s + p) div 5000 = 0"
    "\<not> qbit s + p < 5000 \<Longrightarrow> 0 < (qbit s + p) div 5000" "0 \<le> (qbit s + p) mod 5000"
    using p assms(1) zdiv_mono1 [of 5000 "qbit s + p" 5000] by simp_all
  show ?thesis
    using assms p w(1) w(2) w(3)
    unfolding seq_step_def Let_def insn_def [symmetric] p_def [symmetric] tpu_over_def tpu_meaning_def
    by (simp split: if_split_asm if_split add: tsp_play_def) (auto simp: tsp_play_def)
qed

lemma seq_run_timeline:
  "0 \<le> qbit s \<and> active s \<longrightarrow>
     front_end (seq_run shm fn s) = tsp_play shm (\<lambda>_. fn) (filter (\<lambda>e. fst e = 0) (tpu_here s)) (front_end s)
   \<and> tpu_pending (seq_run shm fn s) = filter (\<lambda>e. fst e \<noteq> 0) (tpu_here s)
   \<and> (active (seq_run shm fn s) \<longrightarrow> 0 \<le> qbit (seq_run shm fn s) \<and> 0 < wait_frames (seq_run shm fn s))"
  (is "?Q s \<longrightarrow> ?P s (seq_run shm fn s)")
proof (rule seq_run_cases)
  fix s :: tpu assume "\<not> (active s \<and> cursor s < seq_len s)"
  then show "?Q s \<longrightarrow> ?P s (s\<lparr>active := False\<rparr>)"
    by (auto simp: tpu_here_def tpu_pending_def tpu_timeline_done tpu_over_def tsp_play_def)
next
  fix s t assume a: "active s" "cursor s < seq_len s" and st: "seq_step shm fn s = (True, t)"
  obtain f' q' es where m: "tpu_meaning (insns s) (cursor s) 0 (qbit s) = (f', q', es)"
    by (cases "tpu_meaning (insns s) (cursor s) 0 (qbit s)")
  show "?Q s \<longrightarrow> ?P s t"
  proof (cases "tpu_over (insns s) (seq_len s) (cursor s)")
    case True
    then have "t = s\<lparr>active := False\<rparr>" using st a by (simp add: seq_step_def tpu_over_def)
    then show ?thesis using True by (simp add: tpu_here_def tpu_pending_def tpu_timeline_done tsp_play_def)
  next
    case False
    have "0 < f' \<Longrightarrow> filter (\<lambda>e. fst e = 0) (tpu_timeline (insns s) (seq_len s) (Suc (cursor s)) f' q') = []"
      "0 < f' \<Longrightarrow> filter (\<lambda>e. 0 < fst e) (tpu_timeline (insns s) (seq_len s) (Suc (cursor s)) f' q') =
         tpu_timeline (insns s) (seq_len s) (Suc (cursor s)) f' q'"
      by (auto simp: filter_empty_conv filter_id_conv dest!: tpu_timeline_from)
    then show ?thesis using seq_step_meaning_case [OF _ False m, of shm fn] st a
      by (auto simp: tpu_here_def tpu_pending_def tpu_timeline_step [OF False m] tsp_play_def filter_empty_conv
          filter_id_conv)
  qed
next
  fix s t assume a: "active s" "cursor s < seq_len s" and st: "seq_step shm fn s = (False, t)"
    and IH: "?Q t \<longrightarrow> ?P t (seq_run shm fn t)"
  obtain f' q' es where m: "tpu_meaning (insns s) (cursor s) 0 (qbit s) = (f', q', es)"
    by (cases "tpu_meaning (insns s) (cursor s) 0 (qbit s)")
  have "\<not> tpu_over (insns s) (seq_len s) (cursor s)"
    using st a by (auto simp: seq_step_def tpu_over_def)
  note s = tpu_timeline_step [OF this m] seq_step_meaning_case [OF _ this m, of shm fn]
  show "?Q s \<longrightarrow> ?P s (seq_run shm fn t)"
    using s IH st a by (auto simp: tpu_here_def tsp_play_def filter_map o_def)
qed

lemma tpu_tick_timeline:
  fixes shm fn s
  assumes "active s" and "0 \<le> qbit s" and "0 < wait_frames s"
  defines "es \<equiv> tpu_timeline (insns s) (seq_len s) (cursor s) (nat (wait_frames s - 1)) (qbit s)"
    and "t \<equiv> calypso_tpu_sequencer_tick shm fn s"
  shows "tpu_pending s = map (tpu_later 1) es"
    and "front_end t = tsp_play shm (\<lambda>_. fn) (filter (\<lambda>e. fst e = 0) es) (front_end s)"
    and "tpu_pending t = filter (\<lambda>e. fst e \<noteq> 0) es"
    and "active t \<longrightarrow> 0 \<le> qbit t \<and> 0 < wait_frames t"
proof -
  have "nat (wait_frames s) = nat (wait_frames s - 1) + 1" using assms(3) by simp
  then show "tpu_pending s = map (tpu_later 1) es"
    using assms(1) by (simp only: tpu_pending_def es_def tpu_timeline_later if_True)
  let ?s = "s\<lparr>wait_frames := wait_frames s - 1\<rparr>"
  have "front_end t = tsp_play shm (\<lambda>_. fn) (filter (\<lambda>e. fst e = 0) es) (front_end s)
     \<and> tpu_pending t = filter (\<lambda>e. fst e \<noteq> 0) es \<and> (active t \<longrightarrow> 0 \<le> qbit t \<and> 0 < wait_frames t)"
  proof (cases "1 < wait_frames s")
    case True
    then have "t = ?s" using assms by (simp add: t_def calypso_tpu_sequencer_tick_def)
    moreover have "filter (\<lambda>e. fst e = 0) es = []" "filter (\<lambda>e. 0 < fst e) es = es"
      using True by (auto simp: es_def filter_empty_conv filter_id_conv dest!: tpu_timeline_from)
    ultimately show ?thesis using True assms by (simp add: tpu_pending_def tsp_play_def es_def)
  next
    case False
    then have "t = seq_run shm fn ?s" "tpu_here ?s = es"
      using assms by (simp_all add: t_def es_def tpu_here_def calypso_tpu_sequencer_tick_def)
    then show ?thesis using seq_run_timeline [of ?s shm fn] assms(1-3) by simp
  qed
  then show "front_end t = tsp_play shm (\<lambda>_. fn) (filter (\<lambda>e. fst e = 0) es) (front_end s)"
    and "tpu_pending t = filter (\<lambda>e. fst e \<noteq> 0) es" and "active t \<longrightarrow> 0 \<le> qbit t \<and> 0 < wait_frames t"
    by blast+
qed

lemma sorted_split_zero:
  "sorted (map fst es) \<Longrightarrow> es = filter (\<lambda>e. fst e = (0 :: nat)) es @ filter (\<lambda>e. fst e \<noteq> 0) es"
proof (induction es)
  case (Cons e es)
  then have "0 < fst e \<Longrightarrow> filter (\<lambda>e. fst e = 0) es = []" by (fastforce simp: filter_empty_conv)
  then show ?case using Cons by auto
qed simp

lemma tsp_play_cong: "(\<And>e. e \<in> set es \<Longrightarrow> g (fst e) = h (fst e)) \<Longrightarrow> tsp_play shm g es = tsp_play shm h es"
  unfolding tsp_play_def by (rule ext, rule fold_cong) auto

lemma tsp_play_append: "tsp_play shm g (xs @ ys) fe = tsp_play shm g ys (tsp_play shm g xs fe)"
  by (simp add: tsp_play_def)

lemma tsp_play_later:
  "tsp_play shm g (filter (\<lambda>e. fst e \<le> Suc n) (map (tpu_later 1) es)) fe = tsp_play shm (\<lambda>f. g (Suc f)) (filter (\<lambda>e. fst e \<le> n) es) fe"
  by (induction es arbitrary: fe) (auto simp: tsp_play_def tpu_later_def)

lemma tsp_play_frames:
  assumes "sorted (map fst es)"
  shows "tsp_play shm (\<lambda>f. (fn # fns) ! f) (filter (\<lambda>e. fst e \<le> n) es) fe =
    tsp_play shm (\<lambda>f. fns ! (f - 1)) (filter (\<lambda>e. fst e \<le> n) (filter (\<lambda>e. fst e \<noteq> 0) es))
      (tsp_play shm (\<lambda>_. fn) (filter (\<lambda>e. fst e = 0) es) fe)"
proof -
  have now: "filter (\<lambda>e. fst e \<le> n) (filter (\<lambda>e. fst e = 0) es) = filter (\<lambda>e. fst e = 0) es"
    by (auto simp: filter_filter intro: filter_cong)
  have "tsp_play shm (\<lambda>f. (fn # fns) ! f) (filter (\<lambda>e. fst e \<le> n) es) fe =
      tsp_play shm (\<lambda>f. (fn # fns) ! f) (filter (\<lambda>e. fst e \<le> n) (filter (\<lambda>e. fst e = 0) es @ filter (\<lambda>e. fst e \<noteq> 0) es)) fe"
    using sorted_split_zero [OF assms] by simp
  also have "\<dots> = tsp_play shm (\<lambda>f. (fn # fns) ! f) (filter (\<lambda>e. fst e \<le> n) (filter (\<lambda>e. fst e \<noteq> 0) es))
      (tsp_play shm (\<lambda>f. (fn # fns) ! f) (filter (\<lambda>e. fst e = 0) es) fe)"
    by (simp only: filter_append tsp_play_append now)
  finally show ?thesis
    using tsp_play_cong [of "filter (\<lambda>e. fst e = 0) es" "\<lambda>f. (fn # fns) ! f" "\<lambda>_. fn" shm]
      tsp_play_cong [of "filter (\<lambda>e. fst e \<le> n) (filter (\<lambda>e. fst e \<noteq> 0) es)" "\<lambda>f. (fn # fns) ! f" "\<lambda>f. fns ! (f - 1)" shm]
    by simp
qed

lemma tpu_ticks_timeline:
  assumes "active s \<longrightarrow> 0 \<le> qbit s \<and> 0 < wait_frames s"
  shows "front_end (tpu_ticks shm fns s) =
    tsp_play shm (\<lambda>f. fns ! (f - 1)) (filter (\<lambda>e. fst e \<le> length fns) (tpu_pending s)) (front_end s)"
  using assms
proof (induction fns arbitrary: s)
  case Nil
  have "filter (\<lambda>e. fst e \<le> 0) (tpu_pending s) = []"
    using Nil by (auto simp: tpu_pending_def filter_empty_conv dest!: tpu_timeline_from)
  then show ?case by (simp add: tsp_play_def)
next
  case (Cons fn fns)
  show ?case
  proof (cases "active s")
    case True
    then have s: "0 \<le> qbit s" "0 < wait_frames s" using Cons.prems by simp_all
    note t = tpu_tick_timeline(2-4) [OF True s, of shm fn]
    have "front_end (tpu_ticks shm (fn # fns) s) =
        tsp_play shm (\<lambda>f. fns ! (f - 1)) (filter (\<lambda>e. fst e \<le> length fns) (tpu_pending (calypso_tpu_sequencer_tick shm fn s)))
          (front_end (calypso_tpu_sequencer_tick shm fn s))"
      using Cons.IH [OF t(3)] by simp
    then show ?thesis
      by (simp only: t tpu_tick_timeline(1) [OF True s] list.size add_Suc_right add_0_right tsp_play_later
          tsp_play_frames [OF tpu_timeline_sorted, symmetric] diff_Suc_1)
  next
    case False
    then have "calypso_tpu_sequencer_tick shm fn s = s" "tpu_pending s = []"
      by (simp_all add: calypso_tpu_sequencer_tick_def tpu_pending_def)
    then show ?thesis using Cons.IH [of s] False by (simp add: tsp_play_def)
  qed
qed

text \<open>C1. The frame-by-frame sequencer implements the program's timeline: after any number of frame ticks, the
  front end has seen exactly the writes the timeline places in those frames, in order, each at its quarter bit
  and with the number of the frame it belongs to.\<close>

theorem tpu_refines_timeline:
  "front_end (tpu_ticks shm fns (calypso_tpu_run_scenario shm ram fn0 regs s)) =
     tsp_play shm (\<lambda>f. (fn0 # fns) ! f) (filter (\<lambda>e. fst e \<le> length fns) (tpu_timeline ram 1024 0 0 0)) (front_end s)"
proof -
  let ?s = "s\<lparr>insns := ram, seq_len := 1024, cursor := 0, qbit := 0, wait_frames := 0, tpu_regs := regs, active := True\<rparr>"
  let ?es = "tpu_timeline ram 1024 0 0 0"
  have run: "calypso_tpu_run_scenario shm ram fn0 regs s = seq_run shm fn0 ?s" "tpu_here ?s = ?es"
    by (simp_all add: calypso_tpu_run_scenario_def tpu_here_def)
  note r = seq_run_timeline [of ?s shm fn0, unfolded run(2)]
  have "front_end (tpu_ticks shm fns (seq_run shm fn0 ?s)) =
      tsp_play shm (\<lambda>f. fns ! (f - 1)) (filter (\<lambda>e. fst e \<le> length fns) (filter (\<lambda>e. fst e \<noteq> 0) ?es))
        (tsp_play shm (\<lambda>_. fn0) (filter (\<lambda>e. fst e = 0) ?es) (front_end s))"
    using r tpu_ticks_timeline [of "seq_run shm fn0 ?s" shm fns] by simp
  also have "\<dots> = tsp_play shm (\<lambda>f. (fn0 # fns) ! f) (filter (\<lambda>e. fst e \<le> length fns) ?es) (front_end s)"
    by (rule tsp_play_frames [OF tpu_timeline_sorted, symmetric])
  finally show ?thesis by (simp only: run)
qed

end
