(* ===== verification/Comp128.thy ===== *)
theory Comp128
  imports Calypso_Prelude
begin

text \<open>
  The authentication algorithm COMP128v1 of the emulated SIM card
  (\<open>src/hw/arm/calypso/calypso_comp128.c\<close>): the five tables, the compression with its
  in-place butterfly rounds, the bit permutation between rounds and the output stage. The work area
  \<open>x[32]\<close> is a list of 32 bytes, \<open>bits[128]\<close> a list of 128 bytes; the C integers
  in which the indices are computed are naturals here, none of them can overflow.
\<close>

section \<open>The algorithm\<close>

definition table_0 :: "u8 list" where
  "table_0 = [
    102, 177, 186, 162, 2, 156, 112, 75, 55, 25, 8, 12, 251, 193, 246, 188, 109, 213, 151, 53, 42, 79, 191, 115,
    233, 242, 164, 223, 209, 148, 108, 161, 252, 37, 244, 47, 64, 211, 6, 237, 185, 160, 139, 113, 76, 138, 59, 70,
    67, 26, 13, 157, 63, 179, 221, 30, 214, 36, 166, 69, 152, 124, 207, 116, 247, 194, 41, 84, 71, 1, 49, 14,
    95, 35, 169, 21, 96, 78, 215, 225, 182, 243, 28, 92, 201, 118, 4, 74, 248, 128, 17, 11, 146, 132, 245, 48,
    149, 90, 120, 39, 87, 230, 106, 232, 175, 19, 126, 190, 202, 141, 137, 176, 250, 27, 101, 40, 219, 227, 58, 20,
    51, 178, 98, 216, 140, 22, 32, 121, 61, 103, 203, 72, 29, 110, 85, 212, 180, 204, 150, 183, 15, 66, 172, 196,
    56, 197, 158, 0, 100, 45, 153, 7, 144, 222, 163, 167, 60, 135, 210, 231, 174, 165, 38, 249, 224, 34, 220, 229,
    217, 208, 241, 68, 206, 189, 125, 255, 239, 54, 168, 89, 123, 122, 73, 145, 117, 234, 143, 99, 129, 200, 192, 82,
    104, 170, 136, 235, 93, 81, 205, 173, 236, 94, 105, 52, 46, 228, 198, 5, 57, 254, 97, 155, 142, 133, 199, 171,
    187, 50, 65, 181, 127, 107, 147, 226, 184, 218, 131, 33, 77, 86, 31, 44, 88, 62, 238, 18, 24, 43, 154, 23,
    80, 159, 134, 111, 9, 114, 3, 91, 16, 130, 83, 10, 195, 240, 253, 119, 177, 102, 162, 186, 156, 2, 75, 112,
    25, 55, 12, 8, 193, 251, 188, 246, 213, 109, 53, 151, 79, 42, 115, 191, 242, 233, 223, 164, 148, 209, 161, 108,
    37, 252, 47, 244, 211, 64, 237, 6, 160, 185, 113, 139, 138, 76, 70, 59, 26, 67, 157, 13, 179, 63, 30, 221,
    36, 214, 69, 166, 124, 152, 116, 207, 194, 247, 84, 41, 1, 71, 14, 49, 35, 95, 21, 169, 78, 96, 225, 215,
    243, 182, 92, 28, 118, 201, 74, 4, 128, 248, 11, 17, 132, 146, 48, 245, 90, 149, 39, 120, 230, 87, 232, 106,
    19, 175, 190, 126, 141, 202, 176, 137, 27, 250, 40, 101, 227, 219, 20, 58, 178, 51, 216, 98, 22, 140, 121, 32,
    103, 61, 72, 203, 110, 29, 212, 85, 204, 180, 183, 150, 66, 15, 196, 172, 197, 56, 0, 158, 45, 100, 7, 153,
    222, 144, 167, 163, 135, 60, 231, 210, 165, 174, 249, 38, 34, 224, 229, 220, 208, 217, 68, 241, 189, 206, 255, 125,
    54, 239, 89, 168, 122, 123, 145, 73, 234, 117, 99, 143, 200, 129, 82, 192, 170, 104, 235, 136, 81, 93, 173, 205,
    94, 236, 52, 105, 228, 46, 5, 198, 254, 57, 155, 97, 133, 142, 171, 199, 50, 187, 181, 65, 107, 127, 226, 147,
    218, 184, 33, 131, 86, 77, 44, 31, 62, 88, 18, 238, 43, 24, 23, 154, 159, 80, 111, 134, 114, 9, 91, 3,
    130, 16, 10, 83, 240, 195, 119, 253]"

definition table_1 :: "u8 list" where
  "table_1 = [
    19, 11, 80, 114, 43, 1, 69, 94, 39, 18, 127, 117, 97, 3, 85, 43, 27, 124, 70, 83, 47, 71, 63, 10,
    47, 89, 79, 4, 14, 59, 11, 5, 35, 107, 103, 68, 21, 86, 36, 91, 85, 126, 32, 50, 109, 94, 120, 6,
    53, 79, 28, 45, 99, 95, 41, 34, 88, 68, 93, 55, 110, 125, 105, 20, 90, 80, 76, 96, 23, 60, 89, 64,
    121, 56, 14, 74, 101, 8, 19, 78, 76, 66, 104, 46, 111, 50, 32, 3, 39, 0, 58, 25, 92, 22, 18, 51,
    57, 65, 119, 116, 22, 109, 7, 86, 59, 93, 62, 110, 78, 99, 77, 67, 12, 113, 87, 98, 102, 5, 88, 33,
    38, 56, 23, 8, 75, 45, 13, 75, 95, 63, 28, 49, 123, 120, 20, 112, 44, 30, 15, 98, 106, 2, 103, 29,
    82, 107, 42, 124, 24, 30, 41, 16, 108, 100, 117, 40, 73, 40, 7, 114, 82, 115, 36, 112, 12, 102, 100, 84,
    92, 48, 72, 97, 9, 54, 55, 74, 113, 123, 17, 26, 53, 58, 4, 9, 69, 122, 21, 118, 42, 60, 27, 73,
    118, 125, 34, 15, 65, 115, 84, 64, 62, 81, 70, 1, 24, 111, 121, 83, 104, 81, 49, 127, 48, 105, 31, 10,
    6, 91, 87, 37, 16, 54, 116, 126, 31, 38, 13, 0, 72, 106, 77, 61, 26, 67, 46, 29, 96, 37, 61, 52,
    101, 17, 44, 108, 71, 52, 66, 57, 33, 51, 25, 90, 2, 119, 122, 35]"

definition table_2 :: "u8 list" where
  "table_2 = [
    52, 50, 44, 6, 21, 49, 41, 59, 39, 51, 25, 32, 51, 47, 52, 43, 37, 4, 40, 34, 61, 12, 28, 4,
    58, 23, 8, 15, 12, 22, 9, 18, 55, 10, 33, 35, 50, 1, 43, 3, 57, 13, 62, 14, 7, 42, 44, 59,
    62, 57, 27, 6, 8, 31, 26, 54, 41, 22, 45, 20, 39, 3, 16, 56, 48, 2, 21, 28, 36, 42, 60, 33,
    34, 18, 0, 11, 24, 10, 17, 61, 29, 14, 45, 26, 55, 46, 11, 17, 54, 46, 9, 24, 30, 60, 32, 0,
    20, 38, 2, 30, 58, 35, 1, 16, 56, 40, 23, 48, 13, 19, 19, 27, 31, 53, 47, 38, 63, 15, 49, 5,
    37, 53, 25, 36, 63, 29, 5, 7]"

definition table_3 :: "u8 list" where
  "table_3 = [
    1, 5, 29, 6, 25, 1, 18, 23, 17, 19, 0, 9, 24, 25, 6, 31, 28, 20, 24, 30, 4, 27, 3, 13,
    15, 16, 14, 18, 4, 3, 8, 9, 20, 0, 12, 26, 21, 8, 28, 2, 29, 2, 15, 7, 11, 22, 14, 10,
    17, 21, 12, 30, 26, 27, 16, 31, 11, 7, 13, 23, 10, 5, 22, 19]"

definition table_4 :: "u8 list" where
  "table_4 = [
    15, 12, 10, 4, 1, 14, 11, 7, 5, 0, 14, 7, 1, 2, 13, 8, 10, 3, 4, 9, 6, 0, 3, 2,
    5, 6, 8, 9, 11, 13, 15, 12]"

definition comp128_table :: "u8 list list" where
  "comp128_table = [table_0, table_1, table_2, table_3, table_4]"

text \<open>The body of the inner loop: both elements of a pair are replaced through the table.\<close>

definition comp128_pair :: "u8 list \<Rightarrow> nat \<Rightarrow> nat \<Rightarrow> u8 list \<Rightarrow> u8 list" where
  "comp128_pair tbl m a x =
     (let b = a + 2 ^ m;
          y = (unat (x ! a) + 2 * unat (x ! b)) mod (32 * 2 ^ m);
          z = (2 * unat (x ! a) + unat (x ! b)) mod (32 * 2 ^ m)
      in x[a := tbl ! y, b := tbl ! z])"

definition comp128_compression_round :: "u8 list \<Rightarrow> nat \<Rightarrow> u8 list \<Rightarrow> u8 list" where
  "comp128_compression_round x n tbl =
     (let m = 4 - n
      in fold (\<lambda>i. fold (\<lambda>j. comp128_pair tbl m (j + i * (2 * 2 ^ m))) [0..<2 ^ m]) [0..<2 ^ n] x)"

definition comp128_compression :: "u8 list \<Rightarrow> u8 list" where
  "comp128_compression x = fold (\<lambda>n x. comp128_compression_round x n (comp128_table ! n)) [0..<5] x"

definition comp128_bitsfrombytes :: "u8 list \<Rightarrow> u8 list" where
  "comp128_bitsfrombytes x = map (\<lambda>i. if bit (x ! (i div 4)) (3 - i mod 4) then 1 else 0) [0..<128]"

definition comp128_permute_bit :: "u8 list \<Rightarrow> nat \<Rightarrow> u8 list \<Rightarrow> u8 list" where
  "comp128_permute_bit bits i x =
     x[i div 8 + 16 := x ! (i div 8 + 16) OR push_bit (7 - i mod 8) (bits ! (i * 17 mod 128))]"

definition comp128_permutation :: "u8 list \<Rightarrow> u8 list \<Rightarrow> u8 list" where
  "comp128_permutation x bits = fold (comp128_permute_bit bits) [0..<128] (take 16 x @ replicate 16 0)"

text \<open>
  One of the rounds 1 to 7: load the key, compress, permute. The first half of the work area is not
  initialised before the first round, which overwrites it.
\<close>

definition comp128_round :: "u8 list \<Rightarrow> u8 list \<Rightarrow> u8 list" where
  "comp128_round ki x =
     (let x1 = comp128_compression (take 16 ki @ drop 16 x)
      in comp128_permutation x1 (comp128_bitsfrombytes x1))"

definition comp128_final :: "u8 list \<Rightarrow> u8 list \<Rightarrow> u8 list" where
  "comp128_final ki rnd = comp128_compression (take 16 ki @ drop 16 ((comp128_round ki ^^ 7) (replicate 16 0 @ take 16 rnd)))"

definition comp128v1 :: "u8 list \<Rightarrow> u8 list \<Rightarrow> u8 list \<times> u8 list" where
  "comp128v1 ki rnd =
     (let x = comp128_final ki rnd;
          sres = map (\<lambda>i. push_bit 4 (x ! i) OR x ! (i + 1)) [0, 2, 4, 6];
          kc = map (\<lambda>i. push_bit 6 (x ! (i + 18)) OR push_bit 2 (x ! (i + 19)) OR drop_bit 2 (x ! (i + 20))) [0, 2, 4, 6, 8, 10]
               @ [push_bit 6 (x ! 30) OR push_bit 2 (x ! 31), 0]
      in (sres, kc))"

definition comp128 :: "u8 list \<Rightarrow> u8 list \<Rightarrow> u8 list \<times> u8 list" where
  "comp128 ki rnd = comp128v1 ki rnd"

section \<open>The rounds as parallel substitutions\<close>

text \<open>
  The reference: in round \<open>n\<close> every element is replaced at once. With \<open>m = 4 - n\<close>, the
  elements whose index has bit \<open>m\<close> clear are the first of a pair, the others the second, and the
  table index is the first plus twice the second, or twice the first plus the second, modulo
  \<open>2 ^ (9 - n)\<close>.
\<close>

definition comp128_mix :: "u8 list \<Rightarrow> nat \<Rightarrow> u8 list \<Rightarrow> u8 list" where
  "comp128_mix tbl m x =
     map (\<lambda>k. tbl ! ((if even (k div 2 ^ m) then unat (x ! k) + 2 * unat (x ! (k + 2 ^ m))
                     else 2 * unat (x ! (k - 2 ^ m)) + unat (x ! k)) mod 2 ^ (m + 5))) [0..<32]"

lemma length_pairs [simp]: "length (fold (comp128_pair tbl m) as x) = length x"
  by (induction as arbitrary: x) (simp_all add: comp128_pair_def Let_def)

text \<open>Pairs that do not overlap are replaced as if all at once.\<close>

lemma pairs_untouched:
  "k \<notin> set as \<Longrightarrow> k \<notin> (\<lambda>a. a + 2 ^ m) ` set as \<Longrightarrow> fold (comp128_pair tbl m) as x ! k = x ! k"
  by (induction as arbitrary: x) (auto simp: comp128_pair_def Let_def)

lemma pairs_nth:
  assumes "distinct (as @ map (\<lambda>a. a + 2 ^ m) as)" and "a \<in> set as" and "\<forall>a \<in> set as. a + 2 ^ m < length x"
  shows "fold (comp128_pair tbl m) as x ! a = tbl ! ((unat (x ! a) + 2 * unat (x ! (a + 2 ^ m))) mod (32 * 2 ^ m))
    \<and> fold (comp128_pair tbl m) as x ! (a + 2 ^ m) = tbl ! ((2 * unat (x ! a) + unat (x ! (a + 2 ^ m))) mod (32 * 2 ^ m))"
  using assms
proof (induction as arbitrary: x)
  case (Cons c as)
  let ?x = "comp128_pair tbl m c x"
  show ?case
  proof (cases "a = c")
    case True
    have "?x ! c = tbl ! ((unat (x ! c) + 2 * unat (x ! (c + 2 ^ m))) mod (32 * 2 ^ m))"
      "?x ! (c + 2 ^ m) = tbl ! ((2 * unat (x ! c) + unat (x ! (c + 2 ^ m))) mod (32 * 2 ^ m))"
      using Cons.prems by (simp_all add: comp128_pair_def Let_def)
    then show ?thesis
      using True Cons.prems pairs_untouched [of c as m tbl ?x] pairs_untouched [of "c + 2 ^ m" as m tbl ?x]
      by auto
  next
    case False
    then have a: "a \<in> set as" using Cons.prems by simp
    have "?x ! a = x ! a" "?x ! (a + 2 ^ m) = x ! (a + 2 ^ m)"
      using Cons.prems False a by (auto simp: comp128_pair_def Let_def nth_list_update)
    moreover have "length ?x = length x" by (simp add: comp128_pair_def Let_def)
    ultimately show ?thesis using Cons.IH [of ?x] Cons.prems a by auto
  qed
qed simp

definition comp128_firsts :: "nat \<Rightarrow> nat list" where
  "comp128_firsts n = concat (map (\<lambda>i. map (\<lambda>j. j + i * (2 * 2 ^ (4 - n))) [0..<2 ^ (4 - n)]) [0..<2 ^ n])"

lemma fold_concat_map: "fold (\<lambda>i. fold (\<lambda>j. f (g i j)) (ys i)) xs s = fold f (concat (map (\<lambda>i. map (g i) (ys i)) xs)) s"
  by (induction xs arbitrary: s) (simp_all add: fold_map o_def)

lemma round_firsts: "comp128_compression_round x n tbl = fold (comp128_pair tbl (4 - n)) (comp128_firsts n) x"
  unfolding comp128_compression_round_def comp128_firsts_def Let_def
  by (rule fold_concat_map [where f = "comp128_pair tbl (4 - n)"])

text \<open>In every round the pairs do not overlap and cover the 32 elements.\<close>

definition comp128_pairing :: "nat \<Rightarrow> bool" where
  "comp128_pairing n \<longleftrightarrow>
     distinct (comp128_firsts n @ map (\<lambda>a. a + 2 ^ (4 - n)) (comp128_firsts n))
     \<and> list_all (\<lambda>a. a + 2 ^ (4 - n) < 32) (comp128_firsts n)
     \<and> list_all (\<lambda>k. if even (k div 2 ^ (4 - n)) then k \<in> set (comp128_firsts n)
                     else 2 ^ (4 - n) \<le> k \<and> k - 2 ^ (4 - n) \<in> set (comp128_firsts n)) [0..<32]"

lemma comp128_pairing_all: "n < 5 \<Longrightarrow> comp128_pairing n"
proof -
  have "list_all comp128_pairing [0, 1, 2, 3, 4]" by code_simp
  moreover assume "n < 5"
  then have "n \<in> set [0, 1, 2, 3, 4]" by auto
  ultimately show ?thesis by (simp only: list_all_iff)
qed

lemma comp128_round_mix:
  assumes "n < 5" and "length x = 32"
  shows "comp128_compression_round x n tbl = comp128_mix tbl (4 - n) x"
proof (rule nth_equalityI)
  show "length (comp128_compression_round x n tbl) = length (comp128_mix tbl (4 - n) x)"
    using assms by (simp add: round_firsts comp128_mix_def)
  fix k assume "k < length (comp128_compression_round x n tbl)"
  then have k: "k < 32" using assms by (simp add: round_firsts)
  let ?m = "4 - n" and ?as = "comp128_firsts n"
  have p: "distinct (?as @ map (\<lambda>a. a + 2 ^ ?m) ?as)" "\<forall>a \<in> set ?as. a + 2 ^ ?m < length x"
    "if even (k div 2 ^ ?m) then k \<in> set ?as else 2 ^ ?m \<le> k \<and> k - 2 ^ ?m \<in> set ?as"
    using comp128_pairing_all [OF assms(1)] k assms(2) by (auto simp: comp128_pairing_def list_all_iff)
  have e: "(32 * 2 ^ ?m :: nat) = 2 ^ (?m + 5)" by (simp add: power_add)
  show "comp128_compression_round x n tbl ! k = comp128_mix tbl ?m x ! k"
  proof (cases "even (k div 2 ^ ?m)")
    case True
    then show ?thesis using p k pairs_nth [OF p(1) _ p(2), of k tbl] by (simp add: round_firsts comp128_mix_def e)
  next
    case False
    then show ?thesis using p k pairs_nth [OF p(1) _ p(2), of "k - 2 ^ ?m" tbl] by (simp add: round_firsts comp128_mix_def e)
  qed
qed

text \<open>The tables: table \<open>n\<close> has \<open>2 ^ (9 - n)\<close> entries, all below \<open>2 ^ (8 - n)\<close>.\<close>

lemma comp128_tables:
  "map length comp128_table = [512, 256, 128, 64, 32]"
  "list_all2 (\<lambda>t w. list_all (\<lambda>v. drop_bit w v = 0) t) comp128_table [8, 7, 6, 5, 4]"
  by code_simp+

lemma comp128_table_entry:
  assumes "n < 5" and "i < 2 ^ (9 - n)"
  shows "unat (comp128_table ! n ! i) < 2 ^ (8 - n)"
proof -
  have l: "length (comp128_table ! n) = 2 ^ (9 - n)"
    using comp128_tables(1) assms(1) nth_map [of n comp128_table length]
    by (auto simp: comp128_table_def less_Suc_eq numeral_eq_Suc)
  have "n \<in> {0, 1, 2, 3, 4}" using assms(1) by auto
  then have "list_all (\<lambda>v. drop_bit (8 - n) v = 0) (comp128_table ! n)"
    using list_all2_nthD [OF comp128_tables(2), of n] by (auto simp: comp128_table_def)
  then have "drop_bit (8 - n) (comp128_table ! n ! i) = 0" using assms(2) l by (simp add: list_all_length)
  then have "unat (comp128_table ! n ! i) div 2 ^ (8 - n) = 0"
    by (metis drop_bit_nat_def unat_0 unat_drop_bit_eq)
  then show ?thesis by (simp add: div_eq_0_iff)
qed

lemma comp128_mix_bound: "n < 5 \<Longrightarrow> v \<in> set (comp128_mix (comp128_table ! n) (4 - n) x) \<Longrightarrow> unat v < 2 ^ (8 - n)"
  by (auto simp: comp128_mix_def intro!: comp128_table_entry)

lemma length_mix [simp]: "length (comp128_mix tbl m x) = 32"
  by (simp add: comp128_mix_def)

lemma compression_mix:
  assumes "length x = 32"
  shows "comp128_compression x = comp128_mix table_4 0 (comp128_mix table_3 1 (comp128_mix table_2 2
    (comp128_mix table_1 3 (comp128_mix table_0 4 x))))"
  using assms by (simp add: comp128_compression_def upt_conv_Cons comp128_round_mix comp128_table_def)

lemma compression_nibbles:
  assumes "length x = 32"
  shows "length (comp128_compression x) = 32" and "v \<in> set (comp128_compression x) \<Longrightarrow> unat v < 16"
  using comp128_mix_bound [of 4 v] assms by (simp_all add: compression_mix comp128_table_def)

section \<open>The permutation\<close>

lemma length_permute_bit [simp]: "length (comp128_permute_bit bits i x) = length x" by (simp add: comp128_permute_bit_def)

lemma permute_bit_bit:
  assumes "length x = 32" "b = 0 \<or> b = 1" "bits ! (k * 17 mod 128) = b" "q < 16" "p < 8"
  shows "bit (comp128_permute_bit bits k x ! (q + 16)) p \<longleftrightarrow> bit (x ! (q + 16)) p \<or> (k = 8 * q + 7 - p \<and> b = 1)"
proof -
  have i: "8 * (k div 8) + k mod 8 = k" "k mod 8 < 8" by simp_all
  show ?thesis
  proof (cases "k div 8 = q")
    case True
    then have "k = 8 * q + 7 - p \<longleftrightarrow> 7 - k mod 8 = p" using i assms(5) by linarith
    then show ?thesis using True assms by (auto simp: comp128_permute_bit_def bit_or_iff bit_push_bit_iff bit_1_iff)
  next
    case False
    then have "k \<noteq> 8 * q + 7 - p" using i assms(5) by linarith
    then show ?thesis using False by (simp add: comp128_permute_bit_def)
  qed
qed

lemma length_permute_bits [simp]: "length (fold (comp128_permute_bit bits) ks x) = length x"
  by (induction ks arbitrary: x) simp_all

lemma length_permutation [simp]: "16 \<le> length x \<Longrightarrow> length (comp128_permutation x bits) = 32"
  by (simp add: comp128_permutation_def)

lemma permute_bits_bit:
  assumes "length x = 32" and "\<forall>b \<in> set bits. b = 0 \<or> b = 1" and "length bits = 128" and "q < 16" and "p < 8"
  shows "bit (fold (comp128_permute_bit bits) [0..<k] x ! (q + 16)) p
    \<longleftrightarrow> bit (x ! (q + 16)) p \<or> (8 * q + 7 - p < k \<and> bits ! ((8 * q + 7 - p) * 17 mod 128) = 1)"
proof (induction k)
  case (Suc k)
  have "bits ! (k * 17 mod 128) = 0 \<or> bits ! (k * 17 mod 128) = 1" using assms(2,3) by simp
  from permute_bit_bit [OF _ this refl assms(4,5), of "fold (comp128_permute_bit bits) [0..<k] x"]
  have "bit (fold (comp128_permute_bit bits) [0..<Suc k] x ! (q + 16)) p \<longleftrightarrow>
      bit (fold (comp128_permute_bit bits) [0..<k] x ! (q + 16)) p \<or> (k = 8 * q + 7 - p \<and> bits ! (k * 17 mod 128) = 1)"
    using assms(1) by simp
  moreover have "8 * q + 7 - p < Suc k \<longleftrightarrow> 8 * q + 7 - p < k \<or> k = 8 * q + 7 - p" by linarith
  ultimately show ?case using Suc by metis
qed simp

lemma bitsfrombytes_bits: "i < 128 \<Longrightarrow> comp128_bitsfrombytes x ! i = (if bit (x ! (i div 4)) (3 - i mod 4) then 1 else 0)"
  by (simp add: comp128_bitsfrombytes_def)

text \<open>The packed bytes hold the bits of the nibbles, the one at position \<open>17 i\<close> modulo 128 at position \<open>i\<close>.\<close>

lemma permutation_bits:
  assumes "length x = 32" and "q < 16" and "p < 8"
  shows "bit (comp128_permutation x (comp128_bitsfrombytes x) ! (q + 16)) p
    \<longleftrightarrow> comp128_bitsfrombytes x ! ((8 * q + 7 - p) * 17 mod 128) = 1"
proof -
  have "8 * q + 7 - p < 128" using assms by simp
  moreover have "\<not> bit ((take 16 x @ replicate 16 0) ! (q + 16)) p" using assms by (simp add: nth_append)
  moreover have "\<forall>b \<in> set (comp128_bitsfrombytes x). b = 0 \<or> b = 1" "length (comp128_bitsfrombytes x) = 128"
    by (auto simp: comp128_bitsfrombytes_def)
  ultimately show ?thesis
    using permute_bits_bit [of "take 16 x @ replicate 16 0" "comp128_bitsfrombytes x" q p 128] assms
    unfolding comp128_permutation_def by simp
qed

lemma permutation_index: "c < 128 \<Longrightarrow> (c * 113 mod 128) * 17 mod 128 = (c :: nat)"
proof -
  assume "c < 128"
  have "(c * 113 mod 128) * 17 mod 128 = c * 113 * 17 mod 128" by (rule mod_mult_left_eq)
  also have "c * 113 * 17 = c + (15 * c) * 128" by simp
  finally show ?thesis using \<open>c < 128\<close> by (simp only: mod_mult_self1 mod_less)
qed

lemma permutation_determines_bits:
  assumes "length x = 32" and "length y = 32"
    and "drop 16 (comp128_permutation x (comp128_bitsfrombytes x)) = drop 16 (comp128_permutation y (comp128_bitsfrombytes y))"
    and "c < 128"
  shows "comp128_bitsfrombytes x ! c = comp128_bitsfrombytes y ! c"
proof -
  define i where "i = c * 113 mod 128"
  define q where "q = i div 8"
  define p where "p = 7 - i mod 8"
  have i: "i < 128" "i * 17 mod 128 = c" using permutation_index [OF assms(4)] by (simp_all add: i_def)
  have qp: "q < 16" "p < 8" "8 * q + 7 - p = i" using i by (auto simp: q_def p_def)
  have "comp128_permutation x (comp128_bitsfrombytes x) ! (q + 16) = comp128_permutation y (comp128_bitsfrombytes y) ! (q + 16)"
    using arg_cong [OF assms(3), of "\<lambda>z. z ! q"] assms(1,2) qp(1) by (simp add: add.commute)
  then have "comp128_bitsfrombytes x ! c = 1 \<longleftrightarrow> comp128_bitsfrombytes y ! c = 1"
    using permutation_bits [OF assms(1) qp(1,2)] permutation_bits [OF assms(2) qp(1,2)] by (simp add: qp(3) i(2))
  then show ?thesis using assms(4) by (simp add: bitsfrombytes_bits split: if_splits)
qed

lemma bits_determine_nibbles:
  assumes "length x = 32" and "length y = 32" and "\<forall>v \<in> set x \<union> set y. unat v < 16"
    and "\<forall>c < 128. comp128_bitsfrombytes x ! c = comp128_bitsfrombytes y ! c"
  shows "x = y"
proof (rule nth_equalityI)
  fix k assume k: "k < length x"
  have "unat (x ! k) < 2 ^ 4" "unat (y ! k) < 2 ^ 4" using assms k by auto
  then have hi: "\<not> bit (x ! k) j" "\<not> bit (y ! k) j" if "4 \<le> j" for j using that bit_above_lt by blast+
  have "bit (x ! k) j = bit (y ! k) j" if "j < 4" for j
  proof -
    define r where "r = 3 - j"
    then have r: "r < 4" "3 - r = j" using that by simp_all
    have c: "4 * k + r < 128" "(4 * k + r) div 4 = k" "(4 * k + r) mod 4 = r" using r k assms(1) by simp_all
    have "comp128_bitsfrombytes x ! (4 * k + r) = comp128_bitsfrombytes y ! (4 * k + r)" using assms(4) c(1) by blast
    then show ?thesis unfolding bitsfrombytes_bits [OF c(1)] c(2,3) r(2) by (simp split: if_splits)
  qed
  then show "x ! k = y ! k" using hi by (metis bit_word_eqI not_less)
qed (use assms in simp)

text \<open>C13. The in-place compression is the specified one: each of its five rounds replaces all 32 elements at once,
  each pair through the table of the round, so the order of the in-place updates does not matter.\<close>

theorem comp128_compression_spec:
  assumes "length x = 32"
  shows "comp128_compression x = comp128_mix table_4 0 (comp128_mix table_3 1 (comp128_mix table_2 2
    (comp128_mix table_1 3 (comp128_mix table_0 4 x))))"
  by (rule compression_mix [OF assms])

theorem comp128_compression_spec_witness:
  "comp128_compression (replicate 32 0) = comp128_mix table_4 0 (comp128_mix table_3 1 (comp128_mix table_2 2
    (comp128_mix table_1 3 (comp128_mix table_0 4 (replicate 32 0)))))"
  by (rule comp128_compression_spec) simp

text \<open>C38. No bit is lost between rounds: the sixteen bytes that the permutation packs determine all 32 nibbles the
  compression left, so two work areas with different compressions are packed differently.\<close>

theorem comp128_permutation_lossless:
  assumes "length x = 32" and "length y = 32" and "comp128_compression x \<noteq> comp128_compression y"
  shows "drop 16 (comp128_permutation (comp128_compression x) (comp128_bitsfrombytes (comp128_compression x))) \<noteq>
         drop 16 (comp128_permutation (comp128_compression y) (comp128_bitsfrombytes (comp128_compression y)))"
proof
  let ?x = "comp128_compression x" and ?y = "comp128_compression y"
  assume "drop 16 (comp128_permutation ?x (comp128_bitsfrombytes ?x)) = drop 16 (comp128_permutation ?y (comp128_bitsfrombytes ?y))"
  then have "\<forall>c < 128. comp128_bitsfrombytes ?x ! c = comp128_bitsfrombytes ?y ! c"
    using permutation_determines_bits [OF compression_nibbles(1) compression_nibbles(1)] assms(1,2) by blast
  moreover have "\<forall>v \<in> set ?x \<union> set ?y. unat v < 16" using compression_nibbles(2) assms(1,2) by blast
  ultimately have "?x = ?y" using bits_determine_nibbles compression_nibbles(1) assms(1,2) by blast
  with assms(3) show False by simp
qed

lemma length_comp128_round: "length ki = 16 \<Longrightarrow> length x = 32 \<Longrightarrow> length (comp128_round ki x) = 32"
  using compression_nibbles(1) [of "take 16 ki @ drop 16 x"] by (simp add: comp128_round_def Let_def)

lemma comp128_final_nibbles:
  assumes "length ki = 16" and "length rnd = 16"
  shows "length (comp128_final ki rnd) = 32" and "v \<in> set (comp128_final ki rnd) \<Longrightarrow> unat v < 16"
proof -
  have "length ((comp128_round ki ^^ n) (replicate 16 0 @ take 16 rnd)) = 32" for n
    using assms by (induction n) (simp_all add: length_comp128_round)
  then have "length (take 16 ki @ drop 16 ((comp128_round ki ^^ 7) (replicate 16 0 @ take 16 rnd))) = 32"
    using assms by simp
  then show "length (comp128_final ki rnd) = 32" "v \<in> set (comp128_final ki rnd) \<Longrightarrow> unat v < 16"
    unfolding comp128_final_def using compression_nibbles by blast+
qed

section \<open>The outputs\<close>

lemma nibble_pair_bit:
  fixes a b :: u8
  assumes "\<forall>j \<ge> 4. \<not> bit b j" and "j < 8"
  shows "bit (push_bit 4 a OR b) j \<longleftrightarrow> (if 4 \<le> j then bit a (j - 4) else bit b j)"
  using assms by (auto simp: bit_simps)

lemma nibble_triple_bit:
  fixes a b c :: u8
  assumes "\<forall>j \<ge> 4. \<not> bit b j" and "\<forall>j \<ge> 4. \<not> bit c j" and "j < 8"
  shows "bit (push_bit 6 a OR push_bit 2 b OR drop_bit 2 c) j
    \<longleftrightarrow> (if 6 \<le> j then bit a (j - 6) else if 2 \<le> j then bit b (j - 2) else bit c (j + 2))"
  using assms by (auto simp: bit_simps)

lemma nibble_index: "(8 * q + r) div 4 = 2 * q + r div 4" "(8 * q + r) mod 4 = r mod (4 :: nat)"
  using div_mult_self4 [of 4 "2 * q" r] mod_mult_self4 [of 4 "2 * q" r] by (simp_all add: mult.assoc [symmetric])

lemma nibble_high: "length x = 32 \<Longrightarrow> \<forall>v \<in> set x. unat v < 16 \<Longrightarrow> k < 32 \<Longrightarrow> \<forall>j \<ge> 4. \<not> bit (x ! k) j" for x :: "u8 list"
proof -
  assume "length x = 32" "\<forall>v \<in> set x. unat v < 16" "k < 32"
  then have "unat (x ! k) < 2 ^ 4" by simp
  then show ?thesis using bit_above_lt by blast
qed

lemma less8_cases: "r < 8 \<Longrightarrow> r = 0 \<or> r = 1 \<or> r = 2 \<or> r = 3 \<or> r = 4 \<or> r = 5 \<or> r = 6 \<or> r = (7 :: nat)"
  by arith

lemma sres_bits:
  assumes "length x = 32" and "\<forall>v \<in> set x. unat v < 16" and "r < 8" and "q < 4"
  shows "bit (push_bit 4 (x ! (2 * q)) OR x ! (2 * q + 1)) (7 - r) \<longleftrightarrow> comp128_bitsfrombytes x ! (8 * q + r) = 1"
proof -
  have "8 * q + r < 128" using assms(3,4) by simp
  note b = bitsfrombytes_bits [OF this, of x, unfolded nibble_index]
  have "bit (push_bit 4 (x ! (2 * q)) OR x ! (2 * q + 1)) (7 - r) \<longleftrightarrow>
      (if 4 \<le> 7 - r then bit (x ! (2 * q)) (7 - r - 4) else bit (x ! (2 * q + 1)) (7 - r))"
    using assms by (intro nibble_pair_bit nibble_high) simp_all
  then show ?thesis unfolding b using less8_cases [OF assms(3)] by (elim disjE) simp_all
qed

lemma kc_bits:
  assumes "length x = 32" and "\<forall>v \<in> set x. unat v < 16" and "r < 8" and "q < 6"
  shows "bit (push_bit 6 (x ! (2 * q + 18)) OR push_bit 2 (x ! (2 * q + 19)) OR drop_bit 2 (x ! (2 * q + 20))) (7 - r)
      \<longleftrightarrow> comp128_bitsfrombytes x ! (74 + (8 * q + r)) = 1"
proof -
  define a b c where "a = x ! (2 * q + 18)" and "b = x ! (2 * q + 19)" and "c = x ! (2 * q + 20)"
  have i: "74 + (8 * q + r) = 8 * (q + 9) + (r + 2)"
    by simp_all
  have "8 * (q + 9) + (r + 2) < 128" using assms(3,4) by simp
  note e = bitsfrombytes_bits [OF this, of x, unfolded nibble_index]
  have "x ! (2 * (q + 9) + (r + 2) div 4) = (if r < 2 then a else if r < 6 then b else c)"
    using less8_cases [OF assms(3)] by (elim disjE) (simp_all add: a_def b_def c_def add.commute)
  moreover have "bit (push_bit 6 a OR push_bit 2 b OR drop_bit 2 c) (7 - r) \<longleftrightarrow>
      (if 6 \<le> 7 - r then bit a (7 - r - 6) else if 2 \<le> 7 - r then bit b (7 - r - 2) else bit c (7 - r + 2))"
    unfolding b_def c_def using assms by (intro nibble_triple_bit nibble_high) simp_all
  moreover have "3 - (r + 2) mod 4 = (if r < 2 then 7 - r - 6 else if r < 6 then 7 - r - 2 else 7 - r + 2)"
    using less8_cases [OF assms(3)] by (elim disjE) simp_all
  ultimately show ?thesis
    unfolding i e a_def [symmetric] b_def [symmetric] c_def [symmetric] by (auto split: if_splits)
qed

lemma kc_last_bits:
  assumes "length x = 32" and "\<forall>v \<in> set x. unat v < 16" and "r < 8"
  shows "bit (push_bit 6 (x ! 30) OR push_bit 2 (x ! 31)) (7 - r) \<longleftrightarrow> r < 6 \<and> comp128_bitsfrombytes x ! (122 + r) = 1"
proof -
  have "bit (push_bit 6 (x ! 30) OR push_bit 2 (x ! 31) OR drop_bit 2 0) (7 - r) \<longleftrightarrow>
      (if 6 \<le> 7 - r then bit (x ! 30) (7 - r - 6) else if 2 \<le> 7 - r then bit (x ! 31) (7 - r - 2) else bit (0 :: u8) (7 - r + 2))"
    using assms by (intro nibble_triple_bit nibble_high) simp_all
  then show ?thesis using less8_cases [OF assms(3)] by (elim disjE) (simp_all add: bitsfrombytes_bits)
qed

text \<open>C39. The two results are slices of the 128 bits of the last compression: SRES is bits 0 to 31, Kc is bits 74 to
  127 followed by ten zeros, so the key has 54 significant bits.\<close>

theorem comp128_outputs:
  assumes "length ki = 16" and "length rnd = 16"
  shows "let sres = fst (comp128v1 ki rnd); kc = snd (comp128v1 ki rnd); bits = comp128_bitsfrombytes (comp128_final ki rnd)
    in (\<forall>i < 32. bit (sres ! (i div 8)) (7 - i mod 8) \<longleftrightarrow> bits ! i = 1)
     \<and> (\<forall>i < 64. bit (kc ! (i div 8)) (7 - i mod 8) \<longleftrightarrow> i < 54 \<and> bits ! (74 + i) = 1)"
proof -
  define x where "x = comp128_final ki rnd"
  have x: "length x = 32" "\<forall>v \<in> set x. unat v < 16" using comp128_final_nibbles [OF assms] by (auto simp: x_def)
  have s: "fst (comp128v1 ki rnd) ! q = push_bit 4 (x ! (2 * q)) OR x ! (2 * q + 1)" if "q < 4" for q
  proof -
    from that have "q = 0 \<or> q = 1 \<or> q = 2 \<or> q = 3" by arith
    then show ?thesis unfolding comp128v1_def x_def [symmetric] Let_def by (elim disjE) simp_all
  qed
  have k: "snd (comp128v1 ki rnd) ! q = push_bit 6 (x ! (2 * q + 18)) OR push_bit 2 (x ! (2 * q + 19)) OR drop_bit 2 (x ! (2 * q + 20))"
    if "q < 6" for q
  proof -
    from that have "q = 0 \<or> q = 1 \<or> q = 2 \<or> q = 3 \<or> q = 4 \<or> q = 5" by arith
    then show ?thesis unfolding comp128v1_def x_def [symmetric] Let_def by (elim disjE) simp_all
  qed
  have k67: "snd (comp128v1 ki rnd) ! 6 = push_bit 6 (x ! 30) OR push_bit 2 (x ! 31)" "snd (comp128v1 ki rnd) ! 7 = 0"
    unfolding comp128v1_def x_def [symmetric] Let_def by simp_all
  have "bit (fst (comp128v1 ki rnd) ! (i div 8)) (7 - i mod 8) \<longleftrightarrow> comp128_bitsfrombytes x ! i = 1" if "i < 32" for i
    using that s [of "i div 8"] sres_bits [OF x, of "i mod 8" "i div 8"] by simp
  moreover have "bit (snd (comp128v1 ki rnd) ! (i div 8)) (7 - i mod 8) \<longleftrightarrow> i < 54 \<and> comp128_bitsfrombytes x ! (74 + i) = 1" if "i < 64" for i
  proof -
    have i: "8 * (i div 8) + i mod 8 = i" "i mod 8 < 8" by simp_all
    have "i div 8 < 8" using that by simp
    then consider "i div 8 < 6" | "i div 8 = 6" | "i div 8 = 7" by linarith
    then show ?thesis
    proof cases
      case 1
      then have "i < 54" using i by linarith
      moreover have "bit (snd (comp128v1 ki rnd) ! (i div 8)) (7 - i mod 8) \<longleftrightarrow> comp128_bitsfrombytes x ! (74 + i) = 1"
        using 1 i k kc_bits [OF x i(2), of "i div 8"] by simp
      ultimately show ?thesis by blast
    next
      case 2
      then have e: "74 + i = 122 + i mod 8" "i < 54 \<longleftrightarrow> i mod 8 < 6" using i by linarith+
      show ?thesis unfolding 2 e k67(1) by (rule kc_last_bits [OF x i(2)])
    next
      case 3
      then show ?thesis using i k67(2) by simp
    qed
  qed
  ultimately show ?thesis by (simp add: Let_def x_def)
qed

theorem comp128_outputs_witness:
  "bit (snd (comp128v1 (replicate 16 1) (replicate 16 2)) ! (60 div 8)) (7 - 60 mod 8)
    \<longleftrightarrow> (60 :: nat) < 54 \<and> comp128_bitsfrombytes (comp128_final (replicate 16 1) (replicate 16 2)) ! (74 + 60) = 1"
proof -
  note comp128_outputs [OF length_replicate [of 16 1] length_replicate [of 16 2], unfolded Let_def, THEN conjunct2, THEN spec, of 60]
  then show ?thesis by (rule mp) simp
qed

lemma comp128_mix_const:
  assumes "m < 5"
  shows "comp128_mix tbl m (replicate 32 v) = replicate 32 (tbl ! (3 * unat v mod 2 ^ (m + 5)))"
proof (rule nth_equalityI)
  fix k assume "k < length (comp128_mix tbl m (replicate 32 v))"
  then have k: "k < 32" by simp
  have "even (k div 2 ^ m) \<Longrightarrow> k + 2 ^ m < 32"
    using comp128_pairing_all [of "4 - m"] k assms by (auto simp: comp128_pairing_def list_all_iff)
  then show "comp128_mix tbl m (replicate 32 v) ! k = replicate 32 (tbl ! (3 * unat v mod 2 ^ (m + 5))) ! k"
    using k by (auto simp: comp128_mix_def)
qed simp

lemma table_lookups:
  "table_0 ! 0 = 102" "table_0 ! 3 = 162" "table_1 ! 50 = 28" "table_1 ! 230 = 77" "table_2 ! 84 = 55" "table_2 ! 103 = 16"
  "table_3 ! 37 = 8" "table_3 ! 48 = 17" "table_4 ! 24 = 5" "table_4 ! 19 = 9"
  by code_simp+

lemma comp128_compression_const:
  "comp128_compression (replicate 32 0) = replicate 32 5" "comp128_compression (replicate 32 1) = replicate 32 9"
proof -
  have "3 * unat (102 :: u8) mod 2 ^ 8 = 50" "3 * unat (28 :: u8) mod 2 ^ 7 = 84" "3 * unat (55 :: u8) mod 2 ^ 6 = 37"
    "3 * unat (8 :: u8) mod 2 ^ 5 = 24" "3 * unat (1 :: u8) mod 2 ^ 9 = 3" "3 * unat (162 :: u8) mod 2 ^ 8 = 230"
    "3 * unat (77 :: u8) mod 2 ^ 7 = 103" "3 * unat (16 :: u8) mod 2 ^ 6 = 48" "3 * unat (17 :: u8) mod 2 ^ 5 = 19" by simp_all
  then show "comp128_compression (replicate 32 0) = replicate 32 5" "comp128_compression (replicate 32 1) = replicate 32 9"
    by (simp_all add: compression_mix comp128_mix_const table_lookups)
qed

theorem comp128_permutation_lossless_witness:
  "drop 16 (comp128_permutation (comp128_compression (replicate 32 0)) (comp128_bitsfrombytes (comp128_compression (replicate 32 0)))) \<noteq>
   drop 16 (comp128_permutation (comp128_compression (replicate 32 1)) (comp128_bitsfrombytes (comp128_compression (replicate 32 1))))"
  by (rule comp128_permutation_lossless) (simp_all only: length_replicate comp128_compression_const, simp add: replicate_eq_replicate)

end
