(* ===== verification/Sim_Files.thy ===== *)
theory Sim_Files
  imports Calypso_Prelude "HOL-Library.Char_ord"
begin

text \<open>
  The file system of the emulated SIM card (\<open>src/hw/arm/calypso/calypso_sim.c\<close>): the table of
  files, the search by identifier, the answer to SELECT, the record stores, the coding of the IMSI
  and of the service centre number, and the parsing of the configuration file. A file's
  \<open>data[64]\<close> is a list of 64 bytes; a pointer into \<open>sim_files\<close> is the index of the file.
\<close>

section \<open>The files\<close>

datatype EfStructure = EF_TRANSPARENT | EF_LINEAR_FIXED | EF_CYCLIC | EF_DF | EF_MF

record SimFile =
  fid :: u16
  parent :: u16
  fstruct :: EfStructure
  fsize :: u16
  rec_len :: u8
  fdata :: "u8 list"

text \<open>An initialiser fills the rest of the array with zeros.\<close>

definition mk_file :: "u16 \<Rightarrow> u16 \<Rightarrow> EfStructure \<Rightarrow> u16 \<Rightarrow> u8 \<Rightarrow> u8 list \<Rightarrow> SimFile" where
  "mk_file i p st n r d = \<lparr>fid = i, parent = p, fstruct = st, fsize = n, rec_len = r, fdata = d @ replicate (64 - length d) 0\<rparr>"

definition sim_files :: "SimFile list" where
  "sim_files = [
    mk_file 0x3F00 0x0000 EF_MF 0 0 [],
    mk_file 0x7F20 0x3F00 EF_DF 0 0 [],
    mk_file 0x7F10 0x3F00 EF_DF 0 0 [],
    mk_file 0x2FE2 0x3F00 EF_TRANSPARENT 10 0 [0x98, 0x10, 0x10, 0x10, 0x00, 0x00, 0x00, 0x00, 0x00, 0xF1],
    mk_file 0x6F07 0x7F20 EF_TRANSPARENT 9 0 [0x08, 0x09, 0x10, 0x10, 0x00, 0x00, 0x00, 0x00, 0xF1],
    mk_file 0x6F30 0x7F20 EF_TRANSPARENT 24 0 [0x00, 0xF1, 0x10, 0xFF, 0xFF, 0xFF, 0xFF, 0xFF, 0xFF, 0xFF, 0xFF, 0xFF, 0xFF, 0xFF, 0xFF, 0xFF, 0xFF, 0xFF, 0xFF, 0xFF, 0xFF, 0xFF, 0xFF, 0xFF],
    mk_file 0x6F38 0x7F20 EF_TRANSPARENT 14 0 [0xFF, 0x33, 0xFF, 0xFF, 0x00, 0x00, 0x00, 0x00, 0x00, 0x00, 0x00, 0x00, 0x00, 0x00],
    mk_file 0x6F78 0x7F20 EF_TRANSPARENT 2 0 [0x00, 0x01],
    mk_file 0x6FAD 0x7F20 EF_TRANSPARENT 4 0 [0x00, 0x00, 0x00, 0x02],
    mk_file 0x6F7E 0x7F20 EF_TRANSPARENT 11 0 [0xFF, 0xFF, 0xFF, 0xFF, 0xFF, 0xFF, 0xFF, 0x00, 0x00, 0xFF, 0x00],
    mk_file 0x6F74 0x7F20 EF_TRANSPARENT 16 0 [0x40, 0x00, 0x00, 0x00, 0x00, 0x00, 0x00, 0x00, 0x00, 0x00, 0x00, 0x00, 0x00, 0x00, 0x00, 0x00],
    mk_file 0x6F46 0x7F20 EF_TRANSPARENT 17 0 [0x01, 0x51, 0x45, 0x4D, 0x55, 0x2D, 0x53, 0x49, 0x4D, 0x20, 0x20, 0x20, 0x20, 0x20, 0x20, 0x20, 0x20],
    mk_file 0x6F20 0x7F20 EF_TRANSPARENT 9 0 [0x00, 0x00, 0x00, 0x00, 0x00, 0x00, 0x00, 0x00, 0x07],
    mk_file 0x6FB7 0x7F20 EF_TRANSPARENT 3 0 [0x11, 0xF2, 0xFF],
    mk_file 0x6F05 0x7F20 EF_TRANSPARENT 1 0 [0x01],
    mk_file 0x6FAE 0x7F20 EF_TRANSPARENT 1 0 [0x03],
    mk_file 0x6F31 0x7F20 EF_TRANSPARENT 1 0 [0xFF],
    mk_file 0x6F7B 0x7F20 EF_TRANSPARENT 12 0 [0xFF, 0xFF, 0xFF, 0xFF, 0xFF, 0xFF, 0xFF, 0xFF, 0xFF, 0xFF, 0xFF, 0xFF],
    mk_file 0x6F3C 0x7F20 EF_LINEAR_FIXED 704 176 [],
    mk_file 0x6F42 0x7F20 EF_LINEAR_FIXED 28 28 [0xFF],
    mk_file 0x6F43 0x7F20 EF_TRANSPARENT 2 0 [0xFF, 0xFF],
    mk_file 0x6F45 0x7F20 EF_TRANSPARENT 2 0 [0xFF, 0xFF],
    mk_file 0x6F48 0x7F20 EF_TRANSPARENT 2 0 [0xFF, 0xFF],
    mk_file 0x6F39 0x7F20 EF_CYCLIC 9 3 [],
    mk_file 0x6F37 0x7F20 EF_TRANSPARENT 3 0 [0x00, 0x00, 0x00],
    mk_file 0x6F41 0x7F20 EF_TRANSPARENT 5 0 [0xFF, 0xFF, 0xFF, 0x00, 0x00],
    mk_file 0x6F3E 0x7F20 EF_TRANSPARENT 1 0 [0xFF],
    mk_file 0x6F3F 0x7F20 EF_TRANSPARENT 1 0 [0xFF],
    mk_file 0x6F3A 0x7F10 EF_LINEAR_FIXED 280 28 [0xFF],
    mk_file 0x6F3B 0x7F10 EF_LINEAR_FIXED 28 28 [0xFF],
    mk_file 0x6F40 0x7F10 EF_LINEAR_FIXED 28 28 [0xFF],
    mk_file 0x6F44 0x7F10 EF_CYCLIC 140 28 [0xFF],
    mk_file 0x6F4A 0x7F10 EF_LINEAR_FIXED 13 13 [0xFF],
    mk_file 0x6F4B 0x7F10 EF_LINEAR_FIXED 13 13 [0xFF],
    mk_file 0x6F16 0x7F20 EF_TRANSPARENT 3 0 [0x02, 0x00, 0x00],
    mk_file 0x6F11 0x7F20 EF_TRANSPARENT 2 0 [0x55, 0x55],
    mk_file 0x6F13 0x7F20 EF_TRANSPARENT 2 0 [0x55, 0x55],
    mk_file 0x6F14 0x7F20 EF_TRANSPARENT 10 0 [0xFF, 0xFF, 0xFF, 0xFF, 0xFF, 0xFF, 0xFF, 0xFF, 0xFF, 0xFF],
    mk_file 0x6F15 0x7F20 EF_TRANSPARENT 2 0 [0xFF, 0xFF],
    mk_file 0x6F17 0x7F20 EF_LINEAR_FIXED 28 28 [0xFF]]"

text \<open>\<open>find_file\<close>: the first file with the identifier in the preferred directory, or else anywhere.\<close>

definition find_file :: "SimFile list \<Rightarrow> u16 \<Rightarrow> u16 \<Rightarrow> nat option" where
  "find_file fs i parent_pref =
     (case (if parent_pref \<noteq> 0 then find (\<lambda>k. fid (fs ! k) = i \<and> parent (fs ! k) = parent_pref) [0..<length fs] else None) of
        Some k \<Rightarrow> Some k
      | None \<Rightarrow> find (\<lambda>k. fid (fs ! k) = i) [0..<length fs])"

text \<open>The answer to SELECT and STATUS: 25 bytes for a directory, 15 for an elementary file.\<close>

definition build_select_response :: "SimFile \<Rightarrow> u8 list" where
  "build_select_response f =
     [0x00, 0x00, ucast (drop_bit 8 (fsize f)), ucast (fsize f), ucast (drop_bit 8 (fid f)), ucast (fid f)] @
     (if fstruct f = EF_DF \<or> fstruct f = EF_MF then
        [if fstruct f = EF_MF then 0x01 else 0x02,
         0x00, 0x00, 0x00, 0x00, 0x00, 0x00, 0x91, 0x02, 0x09, 0x04, 0x00, 0x83, 0x8A, 0x83, 0x8A, 0x00, 0x00, 0x00]
      else
        [0x04, 0x00, 0x00, 0x00, 0x00, 0xAB, 0x02,
         if fstruct f = EF_TRANSPARENT then 0x00 else if fstruct f = EF_LINEAR_FIXED then 0x01 else 0x03,
         rec_len f])"

section \<open>Digits\<close>

definition is_digit :: "char \<Rightarrow> bool" where
  "is_digit c \<longleftrightarrow> CHR ''0'' \<le> c \<and> c \<le> CHR ''9''"

definition digit_val :: "char \<Rightarrow> u8" where
  "digit_val c = of_char c - 0x30"

text \<open>
  The IMSI in EF format: length, the first digit with the parity flag, then two digits per byte,
  low nibble first, padded with \<open>0xF\<close> and then with \<open>0xFF\<close>. \<open>None\<close> is the return value -1.
\<close>

fun imsi_pairs :: "char list \<Rightarrow> u8 list" where
  "imsi_pairs [] = []"
| "imsi_pairs [a] = [push_bit 4 0xF OR digit_val a]"
| "imsi_pairs (a # b # ds) = (push_bit 4 (digit_val b) OR digit_val a) # imsi_pairs ds"

definition encode_imsi_bcd :: "string \<Rightarrow> u8 list option" where
  "encode_imsi_bcd imsi_str =
     (let ds = takeWhile is_digit imsi_str; n = length ds
      in if n < 1 \<or> n > 15 then None
         else let out = [of_nat (n div 2 + 1), push_bit 4 (digit_val (hd ds)) OR (if odd n then 0x9 else 0x1)] @ imsi_pairs (tl ds)
              in Some (out @ replicate (9 - length out) 0xFF))"

section \<open>The service centre and the record stores\<close>

text \<open>
  The loop of \<open>smsp_remplir\<close> over the digits of the number: characters that are not digits are
  skipped, at most 20 digits are packed, low nibble first.
\<close>

fun smsp_bcd :: "string \<Rightarrow> nat \<Rightarrow> u8 list \<Rightarrow> nat \<times> u8 list" where
  "smsp_bcd [] n bcd = (n, bcd)"
| "smsp_bcd (c # d) n bcd =
     (if n < 20 then
        if is_digit c then
          smsp_bcd d (n + 1)
            (bcd[n div 2 := if odd n then (bcd ! (n div 2) AND 0x0F) OR push_bit 4 (digit_val c) else 0xF0 OR digit_val c])
        else smsp_bcd d n bcd
      else (n, bcd))"

text \<open>\<open>copy_at k xs r\<close> is \<open>memcpy(r + k, xs, length xs)\<close> on an array that is large enough.\<close>

definition copy_at :: "nat \<Rightarrow> 'a list \<Rightarrow> 'a list \<Rightarrow> 'a list" where
  "copy_at k xs r = take k r @ xs @ drop (k + length xs) r"

definition smsp_remplir :: "string \<Rightarrow> u8 list \<Rightarrow> u8 list" where
  "smsp_remplir smsc r =
     (let (ton, d) = (case smsc of c # d \<Rightarrow> if c = CHR ''+'' then (0x91, d) else (0x81, smsc) | [] \<Rightarrow> (0x81, smsc));
          (n, bcd) = smsp_bcd d 0 (replicate 10 0xFF)
      in if n = 0 then r
         else (copy_at 15 (take ((n + 1) div 2) bcd) (r[0 := 0xE1, 13 := of_nat (1 + (n + 1) div 2), 14 := ton]))
                [25 := 0x00, 26 := 0x00, 27 := 0xA7])"

abbreviation (input) SIM_REC_MAX :: nat where "SIM_REC_MAX \<equiv> 1024"

text \<open>The initial content of the record store of a file: free records, with three exceptions.\<close>

definition rec_store_init :: "string \<Rightarrow> SimFile \<Rightarrow> u8 list" where
  "rec_store_init smsc f =
     (let n = unat (fsize f); l = unat (rec_len f); st = replicate n 0xFF;
          st = (if fid f = 0x6F3C then fold (\<lambda>r st. st[r * l := 0x00]) [0..<n div l] st else st);
          st = (if fid f = 0x6F39 then replicate n 0x00 else st)
      in if fid f = 0x6F42 \<and> rec_len f = 28 then smsp_remplir smsc st else st)"

section \<open>The configuration file\<close>

text \<open>
  \<open>sscanf\<close> with \<open>%2x\<close>: white space, then at most two characters that form a hexadecimal integer
  with an optional sign; \<open>0x\<close> alone is no integer. The result is stored into a byte.
\<close>

definition is_space :: "char \<Rightarrow> bool" where
  "is_space c \<longleftrightarrow> c = CHR '' '' \<or> c \<in> {CHR 0x09, CHR 0x0A, CHR 0x0B, CHR 0x0C, CHR 0x0D}"

definition hex_val :: "char \<Rightarrow> u8 option" where
  "hex_val c =
     (if is_digit c then Some (digit_val c)
      else if CHR ''a'' \<le> c \<and> c \<le> CHR ''f'' then Some (of_char c - 0x57)
      else if CHR ''A'' \<le> c \<and> c \<le> CHR ''F'' then Some (of_char c - 0x37)
      else None)"

definition scan_2x :: "string \<Rightarrow> u8 option" where
  "scan_2x s =
     (case dropWhile is_space s of
        [] \<Rightarrow> None
      | [a] \<Rightarrow> hex_val a
      | a # b # _ \<Rightarrow>
          if a = CHR ''+'' then hex_val b
          else if a = CHR ''-'' then map_option uminus (hex_val b)
          else if a = CHR ''0'' \<and> (b = CHR ''x'' \<or> b = CHR ''X'') then None
          else case hex_val a of
                 None \<Rightarrow> None
               | Some h \<Rightarrow> (case hex_val b of None \<Rightarrow> Some h | Some l \<Rightarrow> Some (push_bit 4 h OR l)))"

text \<open>
  \<open>skip_two\<close> is \<open>hex += 2\<close>: when only one character is left, the pointer passes the terminator of
  the line and continues in what the line buffer holds behind it (\<open>beyond\<close>).
\<close>

fun skip_two :: "string \<Rightarrow> string \<Rightarrow> string" where
  "skip_two beyond (a # b # s) = s"
| "skip_two beyond s = takeWhile (\<lambda>c. c \<noteq> CHR 0x00) beyond"

fun scan_ki :: "string \<Rightarrow> nat \<Rightarrow> nat \<Rightarrow> string \<Rightarrow> u8 list \<Rightarrow> nat \<times> u8 list" where
  "scan_ki beyond 0 n hex ki = (n, ki)"
| "scan_ki beyond (Suc left) n hex ki =
     (let h = dropWhile (\<lambda>c. c = CHR '' '') hex
      in if h = [] then (n, ki)
         else case scan_2x h of
                None \<Rightarrow> (n, ki)
              | Some v \<Rightarrow> scan_ki beyond left (n + 1) (skip_two beyond h) (ki[n := v]))"

text \<open>What a configuration line sets: the card's files, the key, the service centre.\<close>

record sim_cfg =
  cfg_files :: "SimFile list"
  cfg_ki :: "u8 list"
  cfg_ki_valid :: bool
  cfg_smsc :: string
  in_test_sim :: bool

abbreviation prefixed :: "string \<Rightarrow> string \<Rightarrow> bool" where
  "prefixed p s \<equiv> take (length p) s = p"

definition load_config_line :: "string \<times> string \<Rightarrow> sim_cfg \<Rightarrow> sim_cfg" where
  "load_config_line lb c =
     (let line = fst lb; beyond = snd lb; p = dropWhile (\<lambda>x. x = CHR '' '' \<or> x = CHR 0x09) line
      in if prefixed ''test-sim'' p then c\<lparr>in_test_sim := True\<rparr>
         else if prefixed ''sms-service-center '' p then
           (let w = take 23 (takeWhile (\<lambda>x. \<not> is_space x) (dropWhile is_space (drop 19 p)))
            in if w = [] then c else c\<lparr>cfg_smsc := w\<rparr>)
         else if \<not> in_test_sim c then c
         else if line = [] \<or> hd line \<notin> {CHR '' '', CHR 0x09, CHR 0x0A} then c\<lparr>in_test_sim := False\<rparr>
         else if prefixed ''imsi '' p then
           (case encode_imsi_bcd (drop 5 p) of
              None \<Rightarrow> c
            | Some bcd \<Rightarrow>
                (case find_file (cfg_files c) 0x6F07 0x7F20 of
                   None \<Rightarrow> c
                 | Some k \<Rightarrow> c\<lparr>cfg_files := (cfg_files c)[k := (cfg_files c ! k)
                       \<lparr>fdata := copy_at 0 bcd (fdata (cfg_files c ! k)), fsize := 9\<rparr>]\<rparr>))
         else if prefixed ''ki comp128 '' p then
           (let (n, k) = scan_ki beyond 16 0 (drop 11 p) (cfg_ki c)
            in c\<lparr>cfg_ki := k, cfg_ki_valid := cfg_ki_valid c \<or> n = 16\<rparr>)
         else c)"

definition load_config_from_file :: "(string \<times> string) list option \<Rightarrow> sim_cfg \<Rightarrow> sim_cfg" where
  "load_config_from_file lines c =
     (case lines of None \<Rightarrow> c | Some ls \<Rightarrow> fold load_config_line ls (c\<lparr>in_test_sim := False\<rparr>))"

section \<open>Decoding the IMSI\<close>

text \<open>
  The inverse of the coding, as a terminal reads EF IMSI: the length byte says how many bytes follow,
  the low nibble of the first holds the flags, the other nibbles are digits up to the filler.
\<close>

definition nibbles :: "u8 list \<Rightarrow> u8 list" where
  "nibbles bs = concat (map (\<lambda>b. [b AND 0x0F, drop_bit 4 b]) bs)"

definition imsi_decode :: "u8 list \<Rightarrow> u8 list" where
  "imsi_decode bs = takeWhile (\<lambda>d. d \<noteq> 0xF) (tl (nibbles (take (unat (hd bs)) (tl bs))))"

lemma digit_val_lt: "is_digit c \<Longrightarrow> unat (digit_val c) < 10"
proof -
  assume "is_digit c"
  then have "48 \<le> (of_char c :: nat)" "(of_char c :: nat) \<le> 57" by (simp_all add: is_digit_def less_eq_char_def)
  then obtain m where m: "(of_char c :: nat) = 48 + m" "m \<le> 9" using le_Suc_ex by fastforce
  have "(of_char c :: u8) = of_nat (of_char c)" by (simp add: of_nat_of_char)
  then have "digit_val c = of_nat m" by (simp add: digit_val_def m)
  then show ?thesis using m by (simp add: unat_of_nat take_bit_nat_eq_self)
qed

lemma nibble_split:
  fixes a b :: u8
  assumes "unat a < 16" and "unat b < 16"
  shows "(push_bit 4 b OR a) AND 0x0F = a" and "drop_bit 4 (push_bit 4 b OR a) = b"
proof -
  have "\<not> bit a n" "\<not> bit b n" if "4 \<le> n" for n
    using assms bit_above_lt [of a 4 n] bit_above_lt [of b 4 n] that by simp_all
  then show "(push_bit 4 b OR a) AND 0x0F = a" "drop_bit 4 (push_bit 4 b OR a) = b"
    unfolding mask_take_bit by (auto simp: word_eq_bits bit_simps not_less [symmetric])
qed


lemma nibbles_pairs:
  "list_all is_digit ds \<Longrightarrow> nibbles (imsi_pairs ds) = map digit_val ds @ (if odd (length ds) then [0xF] else [])"
proof (induction ds rule: imsi_pairs.induct)
  case (2 a)
  then have "unat (digit_val a) < 16" using digit_val_lt [of a] by simp
  then show ?case using nibble_split [of "digit_val a" "0xF"] by (simp add: nibbles_def)
next
  case (3 a b ds)
  then have "unat (digit_val a) < 16" "unat (digit_val b) < 16" using digit_val_lt [of a] digit_val_lt [of b] by simp_all
  then show ?case using 3 nibble_split [of "digit_val a" "digit_val b"] by (simp add: nibbles_def)
qed (simp add: nibbles_def)

lemma length_imsi_pairs: "length (imsi_pairs ds) = (length ds + 1) div 2"
  by (induction ds rule: imsi_pairs.induct) simp_all

lemma takeWhile_digits: "list_all is_digit ds \<Longrightarrow> takeWhile (\<lambda>d. d \<noteq> 0xF) (map digit_val ds @ fill) = map digit_val ds @ takeWhile (\<lambda>d. d \<noteq> 0xF) fill"
proof (induction ds)
  case (Cons d ds)
  then have "digit_val d \<noteq> 0xF" using digit_val_lt [of d] by auto
  then show ?case using Cons by simp
qed simp

text \<open>C29. The IMSI round trip: every IMSI of 1 to 15 digits is coded in nine bytes whose decoding is the IMSI, with the
  parity flag of its length, whatever follows the digits in the configuration line.\<close>

theorem sim_imsi_roundtrip:
  assumes "list_all is_digit ds" and "ds \<noteq> []" and "length ds \<le> 15" and "rest = [] \<or> \<not> is_digit (hd rest)"
  shows "\<exists>out. encode_imsi_bcd (ds @ rest) = Some out \<and> length out = 9 \<and> imsi_decode out = map digit_val ds
    \<and> (bit (out ! 1) 3 \<longleftrightarrow> odd (length ds))"
proof -
  obtain d es where ds: "ds = d # es" using assms(2) by (cases ds) auto
  have tw: "takeWhile is_digit (ds @ rest) = ds"
    using assms(1,4) by (cases rest) (auto simp: takeWhile_append list_all_iff)
  define n where "n = length ds"
  define f :: u8 where "f = (if odd n then 0x9 else 0x1)"
  define out where "out = [of_nat (n div 2 + 1), push_bit 4 (digit_val d) OR f] @ imsi_pairs es"
  define fill :: "u8 list" where "fill = replicate (9 - length out) 0xFF"
  have n: "n \<le> 15" "1 \<le> n" "n = Suc (length es)" using assms(3) ds by (simp_all add: n_def)
  have e: "encode_imsi_bcd (ds @ rest) = Some (out @ fill)"
    unfolding encode_imsi_bcd_def Let_def tw n_def [symmetric] using n ds
    by (simp add: out_def fill_def f_def)
  have l: "length out = n div 2 + 2" using n by (auto simp: out_def length_imsi_pairs)
  have u: "unat (of_nat (n div 2 + 1) :: u8) = n div 2 + 1"
    unfolding unat_of_nat using n by (intro mod_less) simp
  have "take (n div 2 + 1) (tl (out @ fill)) = tl out" using l by (simp add: out_def)
  then have "imsi_decode (out @ fill) = takeWhile (\<lambda>d. d \<noteq> 0xF) (tl (nibbles (tl out)))"
    unfolding imsi_decode_def using u by (simp add: out_def)
  also have "tl (nibbles (tl out)) = digit_val d # nibbles (imsi_pairs es)"
    using nibble_split(2) [of f "digit_val d"] digit_val_lt [of d] assms(1) ds by (auto simp: out_def nibbles_def f_def)
  also have "\<dots> = map digit_val ds @ (if odd (length es) then [0xF] else [])"
    using nibbles_pairs [of es] assms(1) ds by simp
  finally have "imsi_decode (out @ fill) = map digit_val ds" using takeWhile_digits [OF assms(1)] by simp
  moreover have "bit ((out @ fill) ! 1) 3 \<longleftrightarrow> odd (length ds)" by (simp add: out_def f_def n_def bit_simps)
  moreover have "length (out @ fill) = 9" using l n by (simp add: fill_def)
  ultimately show ?thesis using e by blast
qed

theorem sim_imsi_roundtrip_witness:
  "\<exists>out. encode_imsi_bcd (''208100000000001'' @ [CHR 0x0A]) = Some out \<and> length out = 9
    \<and> imsi_decode out = map digit_val ''208100000000001'' \<and> (bit (out ! 1) 3 \<longleftrightarrow> odd (length ''208100000000001''))"
  by (rule sim_imsi_roundtrip) (simp_all add: is_digit_def less_eq_char_def)

end
