(* ===== verification/Sim.thy ===== *)
theory Sim
  imports Sim_Files Comp128 Ring
begin

text \<open>
  The SIM interface and the card behind it (\<open>src/hw/arm/calypso/calypso_sim.c\<close>): the receive ring,
  the interrupt register, the answers delayed by a transmission time, the APDU state machine, the card
  commands and the register file. The static variables of the C file (files, record stores, current
  record) are part of the state. A QEMU timer is its deadline, \<open>None\<close> when it is not armed; the
  virtual clock is read several times by one register access, and \<open>clk k\<close> is its \<open>k\<close>-th reading.
\<close>

section \<open>State\<close>

abbreviation (input) APDU_MAX_LEN :: nat where "APDU_MAX_LEN \<equiv> 261"
abbreviation (input) RX_FIFO_SIZE :: nat where "RX_FIFO_SIZE \<equiv> 512"
abbreviation (input) ATR_DELAY_NS :: int where "ATR_DELAY_NS \<equiv> 1000000"
abbreviation (input) WT_DELAY_NS :: int where "WT_DELAY_NS \<equiv> 2000000"
abbreviation (input) RESP_DELAY_NS :: int where "RESP_DELAY_NS \<equiv> 1500000"
abbreviation (input) APDU_ABANDON_NS :: int where "APDU_ABANDON_NS \<equiv> 500000000"

abbreviation (input) CMD_CARDRST :: nat where "CMD_CARDRST \<equiv> 0"
abbreviation (input) CMD_IFRST :: nat where "CMD_IFRST \<equiv> 1"
abbreviation (input) CMD_STOP :: nat where "CMD_STOP \<equiv> 2"
abbreviation (input) CMD_START :: nat where "CMD_START \<equiv> 3"
abbreviation (input) IT_NATR :: nat where "IT_NATR \<equiv> 0"
abbreviation (input) IT_WT :: nat where "IT_WT \<equiv> 1"
abbreviation (input) IT_OV :: nat where "IT_OV \<equiv> 2"
abbreviation (input) IT_TX :: nat where "IT_TX \<equiv> 3"
abbreviation (input) IT_RX :: nat where "IT_RX \<equiv> 4"
abbreviation (input) CONF1_SCLKEN :: nat where "CONF1_SCLKEN \<equiv> 3"
abbreviation (input) CONF1_BYPASS :: nat where "CONF1_BYPASS \<equiv> 8"
abbreviation (input) CONF1_SVCCLEV :: nat where "CONF1_SVCCLEV \<equiv> 9"
abbreviation (input) CONF1_SRSTLEV :: nat where "CONF1_SRSTLEV \<equiv> 10"

definition SIM_ATR :: "u8 list" where
  "SIM_ATR = [0x3B, 0x02, 0x14, 0x50]"

record sim =
  wired :: bool
  sirq :: bool
  atr_timer :: "int option"
  wt_timer :: "int option"
  resp_timer :: "int option"
  tx_timer :: "int option"
  ki :: "u8 list"
  ki_valid :: bool
  cmd :: u16
  stat :: u16
  conf1 :: u16
  conf2 :: u16
  maskit :: u16
  it_cd :: u16
  it :: u16
  apdu :: "u8 list"
  apdu_expected :: nat
  rx :: "nat \<Rightarrow> u8"
  rx_head :: nat
  rx_tail :: nat
  selected_df :: u16
  selected_ef :: u16
  resp :: "u8 list"
  powered :: bool
  atr_manual_done :: bool
  defer_resp :: bool
  pend :: "u8 list"
  last_tx_ns :: int
  files :: "SimFile list"
  store :: "nat \<Rightarrow> u8 list option"
  smsc :: string
  rec_ef :: u16
  rec_cur :: nat
  us_octet :: int

text \<open>
  \<open>apdu\<close> holds the \<open>apdu_pos\<close> bytes received, \<open>resp\<close> the \<open>resp_len\<close> bytes of an answer waiting for
  GET RESPONSE and \<open>pend\<close> the \<open>pend_len\<close> bytes of a delayed answer; \<open>us_octet\<close> is the value of
  the environment variable of that name in the code.
\<close>

section \<open>The receive ring, the interrupt and the delayed answers\<close>

definition rx_count :: "sim \<Rightarrow> nat" where
  "rx_count s = (if rx_tail s \<le> rx_head s then rx_head s - rx_tail s else rx_head s + RX_FIFO_SIZE - rx_tail s)"

definition rx_push :: "sim \<Rightarrow> u8 \<Rightarrow> sim" where
  "rx_push s b =
     (if defer_resp s then (if length (pend s) < APDU_MAX_LEN + 16 then s\<lparr>pend := pend s @ [b]\<rparr> else s)
      else let nxt = (rx_head s + 1) mod RX_FIFO_SIZE
           in if nxt = rx_tail s then s else s\<lparr>rx := (rx s)(rx_head s := b), rx_head := nxt\<rparr>)"

definition rx_pop :: "sim \<Rightarrow> u8 \<times> sim" where
  "rx_pop s = (if rx_head s = rx_tail s then (0, s) else (rx s (rx_tail s), s\<lparr>rx_tail := (rx_tail s + 1) mod RX_FIFO_SIZE\<rparr>))"

definition rx_push_n :: "sim \<Rightarrow> u8 list \<Rightarrow> sim" where
  "rx_push_n s bs = foldl rx_push s bs"

definition refresh_it_rx :: "sim \<Rightarrow> sim" where
  "refresh_it_rx s = s\<lparr>it := if rx_count s > 0 then set_bit IT_RX (it s) else unset_bit IT_RX (it s)\<rparr>"

definition update_irq :: "sim \<Rightarrow> sim" where
  "update_irq s = (if \<not> wired s then s else let s1 = refresh_it_rx s in s1\<lparr>sirq := it s1 AND NOT (maskit s1) \<noteq> 0\<rparr>)"

definition fire_wt :: "int \<Rightarrow> sim \<Rightarrow> sim" where
  "fire_wt now s =
     (if rx_count s > 0 then s
      else if pend s \<noteq> [] then s\<lparr>wt_timer := Some (now + WT_DELAY_NS)\<rparr>
      else update_irq (s\<lparr>it := set_bit IT_WT (it s)\<rparr>))"

definition schedule_wt :: "int \<Rightarrow> sim \<Rightarrow> sim" where
  "schedule_wt now s = s\<lparr>wt_timer := Some (now + WT_DELAY_NS)\<rparr>"

definition resp_delai_ns :: "sim \<Rightarrow> nat \<Rightarrow> int" where
  "resp_delai_ns s n = (let d = int n * us_octet s * 1000 in if d > RESP_DELAY_NS then d else RESP_DELAY_NS)"

definition tx_fire :: "sim \<Rightarrow> sim" where
  "tx_fire s = update_irq (s\<lparr>it := set_bit IT_TX (it s)\<rparr>)"

definition resp_fire :: "sim \<Rightarrow> sim" where
  "resp_fire s = update_irq ((rx_push_n (s\<lparr>defer_resp := False\<rparr>) (pend s))\<lparr>pend := [], defer_resp := False\<rparr>)"

definition raise_rx_irq :: "int \<Rightarrow> sim \<Rightarrow> sim" where
  "raise_rx_irq now s =
     (if defer_resp s then s\<lparr>resp_timer := Some (now + resp_delai_ns s (length (pend s)))\<rparr> else update_irq s)"

definition deliver_atr :: "int \<Rightarrow> sim \<Rightarrow> sim" where
  "deliver_atr now s = (if \<not> powered s then s else raise_rx_irq now (rx_push_n s SIM_ATR))"

definition schedule_atr :: "int \<Rightarrow> sim \<Rightarrow> sim" where
  "schedule_atr now s = s\<lparr>atr_timer := Some (now + ATR_DELAY_NS)\<rparr>"

section \<open>The card commands\<close>

definition respond_sw :: "sim \<Rightarrow> u8 \<Rightarrow> u8 \<Rightarrow> sim" where
  "respond_sw s sw1 sw2 = rx_push (rx_push s sw1) sw2"

definition respond_with_data_pending :: "sim \<Rightarrow> u8 list \<Rightarrow> sim" where
  "respond_with_data_pending s data = (let d = take 64 data in respond_sw (s\<lparr>resp := d\<rparr>) 0x9F (of_nat (length d)))"

definition cmd_select :: "sim \<Rightarrow> u8 \<Rightarrow> u8 list \<Rightarrow> sim" where
  "cmd_select s lc data =
     (if lc \<noteq> 2 then respond_sw s 0x67 0x00
      else
        let i = push_bit 8 (ucast (data ! 0)) OR ucast (data ! 1) :: u16;
            (f, s1) =
              (if i = 0x3F00 then (find_file (files s) 0x3F00 0, s\<lparr>selected_df := 0x3F00\<rparr>)
               else if i AND 0xFF00 = 0x7F00 then
                 (let f = find_file (files s) i 0 in (f, if f \<noteq> None then s\<lparr>selected_df := i\<rparr> else s))
               else if i AND 0xFF00 = 0x2F00 then (find_file (files s) i 0x3F00, s)
               else (case find_file (files s) i (selected_df s) of Some k \<Rightarrow> Some k | None \<Rightarrow> find_file (files s) i 0, s))
        in case f of
             None \<Rightarrow> respond_sw s1 0x6A 0x82
           | Some k \<Rightarrow> respond_with_data_pending (s1\<lparr>selected_ef := fid (files s1 ! k)\<rparr>) (build_select_response (files s1 ! k)))"

definition cmd_get_response :: "sim \<Rightarrow> u8 \<Rightarrow> sim" where
  "cmd_get_response s le =
     (if resp s = [] then respond_sw s 0x6F 0x00
      else let n = (if le = 0 then length (resp s) else if unat le > length (resp s) then length (resp s) else unat le)
           in (respond_sw (rx_push_n s (take n (resp s))) 0x90 0x00)\<lparr>resp := []\<rparr>)"

text \<open>The record store of a file, created at its first use; \<open>None\<close> for a file without records.\<close>

definition rec_store :: "nat \<Rightarrow> sim \<Rightarrow> u8 list option \<times> sim" where
  "rec_store k s =
     (let f = files s ! k
      in if rec_len f = 0 \<or> unat (fsize f) > SIM_REC_MAX then (None, s)
         else case store s k of
                Some st \<Rightarrow> (Some st, s)
              | None \<Rightarrow> (let st = rec_store_init (smsc s) f in (Some st, s\<lparr>store := (store s)(k := Some st)\<rparr>)))"

definition is_record_file :: "SimFile \<Rightarrow> bool" where
  "is_record_file f \<longleftrightarrow> fstruct f = EF_LINEAR_FIXED \<or> fstruct f = EF_CYCLIC"

definition nrec :: "SimFile \<Rightarrow> nat" where
  "nrec f = unat (fsize f) div unat (rec_len f)"

definition cmd_read_record :: "sim \<Rightarrow> u8 \<Rightarrow> u8 \<Rightarrow> u8 \<Rightarrow> sim" where
  "cmd_read_record s rec0 mode le =
     (case find_file (files s) (selected_ef s) 0 of
        None \<Rightarrow> respond_sw s 0x94 0x00
      | Some k \<Rightarrow>
          let f = files s ! k
          in if \<not> is_record_file f then respond_sw s 0x94 0x00
             else
               let s1 = (if rec_ef s \<noteq> selected_ef s then s\<lparr>rec_ef := selected_ef s, rec_cur := 0\<rparr> else s);
                   rec = (if mode = 0x02 then of_nat (rec_cur s1 + 1)
                          else if mode = 0x03 then of_nat (if rec_cur s1 > 0 then rec_cur s1 - 1 else nrec f)
                          else rec0)
               in if mode \<notin> {0x02, 0x03, 0x04} then respond_sw s1 0x6B 0x00
                  else if rec < 1 \<or> unat rec > nrec f then respond_sw s1 0x94 0x02
                  else
                    let l = unat (rec_len f);
                        n = (if le = 0 then l else min (unat le) l);
                        (st, s2) = rec_store k (s1\<lparr>rec_cur := unat rec\<rparr>);
                        buf = (case st of None \<Rightarrow> replicate n 0xFF | Some b \<Rightarrow> take n (drop ((unat rec - 1) * l) b))
                    in respond_sw (rx_push_n s2 buf) 0x90 0x00)"

definition cmd_read_binary :: "sim \<Rightarrow> u8 \<Rightarrow> u8 \<Rightarrow> u8 \<Rightarrow> sim" where
  "cmd_read_binary s p1 p2 le =
     (case find_file (files s) (selected_ef s) 0 of
        None \<Rightarrow> respond_sw s 0x94 0x00
      | Some k \<Rightarrow>
          let f = files s ! k
          in if fstruct f \<noteq> EF_TRANSPARENT then respond_sw s 0x94 0x00
             else let offset = unat p1 * 256 + unat p2; n = (if le = 0 then 256 else unat le)
                  in if offset + n > unat (fsize f) then respond_sw s 0x67 0x00
                     else respond_sw (rx_push_n s (take n (drop offset (fdata f)))) 0x90 0x00)"

definition cmd_update_binary :: "sim \<Rightarrow> u8 \<Rightarrow> u8 \<Rightarrow> u8 \<Rightarrow> u8 list \<Rightarrow> sim" where
  "cmd_update_binary s p1 p2 lc data =
     (case find_file (files s) (selected_ef s) 0 of
        None \<Rightarrow> respond_sw s 0x94 0x08
      | Some k \<Rightarrow>
          let f = files s ! k
          in if fstruct f \<noteq> EF_TRANSPARENT then respond_sw s 0x94 0x08
             else let offset = unat p1 * 256 + unat p2
                  in if offset + unat lc > unat (fsize f) then respond_sw s 0x67 0x00
                     else respond_sw
                       (if offset + unat lc \<le> 64
                        then s\<lparr>files := (files s)[k := f\<lparr>fdata := copy_at offset (take (unat lc) data) (fdata f)\<rparr>]\<rparr> else s) 0x90 0x00)"

definition cmd_update_record :: "sim \<Rightarrow> u8 \<Rightarrow> u8 \<Rightarrow> u8 \<Rightarrow> u8 list option \<Rightarrow> sim" where
  "cmd_update_record s rec mode lc data =
     (case find_file (files s) (selected_ef s) 0 of
        None \<Rightarrow> respond_sw s 0x94 0x08
      | Some k \<Rightarrow>
          let f = files s ! k
          in if \<not> is_record_file f then respond_sw s 0x94 0x08
             else if lc \<noteq> rec_len f then respond_sw s 0x67 0x00
             else if mode = 0x04 \<and> (rec < 1 \<or> unat rec > nrec f) then respond_sw s 0x94 0x02
             else respond_sw
               (if mode = 0x04 then
                  (let (st, s1) = rec_store k s
                   in case (st, data) of
                        (Some b, Some d) \<Rightarrow> s1\<lparr>store := (store s1)
                            (k := Some (copy_at ((unat rec - 1) * unat (rec_len f)) (take (unat lc) d) b))\<rparr>
                      | _ \<Rightarrow> s1)
                else s) 0x90 0x00)"

definition cmd_status :: "sim \<Rightarrow> u8 \<Rightarrow> sim" where
  "cmd_status s le =
     (case find_file (files s) (selected_df s) 0 of
        None \<Rightarrow> respond_sw s 0x6F 0x00
      | Some k \<Rightarrow>
          let r = build_select_response (files s ! k); n = length r;
              outn = (if le = 0 \<or> unat le > n then n else unat le)
          in respond_sw (rx_push_n s (take outn r)) 0x90 0x00)"

definition cmd_verify_chv :: "sim \<Rightarrow> sim" where
  "cmd_verify_chv s = respond_sw s 0x90 0x00"

definition cmd_run_gsm_algo :: "sim \<Rightarrow> u8 \<Rightarrow> u8 list \<Rightarrow> sim" where
  "cmd_run_gsm_algo s lc data =
     (if lc \<noteq> 16 then respond_sw s 0x67 0x00
      else respond_with_data_pending s
        (if ki_valid s then (let (sres, kc) = comp128v1 (ki s) data in sres @ kc)
         else map (\<lambda>b. b XOR 0xAA) (take 4 data) @ replicate 8 0x00))"

section \<open>The APDU machine\<close>

text \<open>The instructions whose answer starts with the procedure byte, and those that send data to the card.\<close>

definition returns_data :: "u8 \<Rightarrow> bool" where
  "returns_data ins \<longleftrightarrow> ins = 0xC0 \<or> ins = 0xB0 \<or> ins = 0xB2 \<or> ins = 0xF2 \<or> ins = 0x12"

definition is_outgoing_data :: "u8 \<Rightarrow> bool" where
  "is_outgoing_data ins \<longleftrightarrow> ins = 0xA4 \<or> ins = 0xD6 \<or> ins = 0xDC \<or> ins = 0x20 \<or> ins = 0x24 \<or> ins = 0x88"

definition dispatch_apdu :: "int \<Rightarrow> sim \<Rightarrow> sim" where
  "dispatch_apdu now s =
     (let ins = apdu s ! 1; p1 = apdu s ! 2; p2 = apdu s ! 3; p3 = apdu s ! 4;
          data = (if length (apdu s) > 5 then Some (drop 5 (apdu s)) else None);
          d = (case data of Some d \<Rightarrow> d | None \<Rightarrow> []);
          s1 = (if returns_data ins then rx_push s ins else s);
          s2 = (if ins = 0xA4 then cmd_select s1 p3 d
                else if ins = 0xB0 then cmd_read_binary s1 p1 p2 p3
                else if ins = 0xB2 then cmd_read_record s1 p1 p2 p3
                else if ins = 0xD6 then cmd_update_binary s1 p1 p2 p3 d
                else if ins = 0xDC then cmd_update_record s1 p1 p2 p3 data
                else if ins = 0xC0 then cmd_get_response s1 p3
                else if ins = 0xF2 then cmd_status s1 p3
                else if ins = 0x20 then cmd_verify_chv s1
                else if ins = 0x88 then cmd_run_gsm_algo s1 p3 d
                else respond_sw s1 0x6D 0x00)
      in raise_rx_irq now s2)"

text \<open>A byte after a silence of more than 500 ms opens a new command.\<close>

definition apdu_abandon :: "int \<Rightarrow> sim \<Rightarrow> sim" where
  "apdu_abandon now s =
     (if apdu s \<noteq> [] \<and> now - last_tx_ns s > APDU_ABANDON_NS then s\<lparr>apdu := [], apdu_expected := 0\<rparr> else s)"

text \<open>The header is complete: how many bytes to wait for, and the acknowledgement of a command that sends data.\<close>

definition apdu_header :: "int \<Rightarrow> sim \<Rightarrow> sim" where
  "apdu_header now s =
     (let ins = apdu s ! 1; p3 = apdu s ! 4
      in if is_outgoing_data ins \<and> p3 \<noteq> 0
         then raise_rx_irq now (rx_push (s\<lparr>apdu_expected := 5 + unat p3\<rparr>) ins)
         else s\<lparr>apdu_expected := 5\<rparr>)"

definition apdu_tx_byte_inner :: "(nat \<Rightarrow> int) \<Rightarrow> sim \<Rightarrow> u8 \<Rightarrow> sim" where
  "apdu_tx_byte_inner clk s b =
     (let s1 = (apdu_abandon (clk 0) s)\<lparr>last_tx_ns := clk 0\<rparr>;
          s2 = (if length (apdu s1) < APDU_MAX_LEN then s1\<lparr>apdu := apdu s1 @ [b]\<rparr> else s1);
          s3 = (if length (apdu s2) = 5 then apdu_header (clk 1) s2 else s2)
      in if length (apdu s3) = apdu_expected s3
         then (dispatch_apdu (clk 2) s3)\<lparr>apdu := [], apdu_expected := 0\<rparr> else s3)"

definition apdu_tx_byte :: "(nat \<Rightarrow> int) \<Rightarrow> sim \<Rightarrow> u8 \<Rightarrow> sim" where
  "apdu_tx_byte clk s b =
     (let s1 = (apdu_tx_byte_inner clk (s\<lparr>defer_resp := True\<rparr>) b)\<lparr>defer_resp := False\<rparr>
      in if pend s1 \<noteq> [] then s1\<lparr>resp_timer := Some (clk 3 + resp_delai_ns s1 (length (pend s1)))\<rparr> else s1)"

section \<open>The registers\<close>

definition calypso_sim_reg_read :: "sim \<Rightarrow> hwaddr \<Rightarrow> u16 \<times> sim" where
  "calypso_sim_reg_read s off =
     (if off = 0x00 then (cmd s, s)
      else if off = 0x02 then
        ((if powered s then 1 else 0) OR 2 OR (if rx_count s = 0 then 8 else 0) OR (if rx_count s \<ge> RX_FIFO_SIZE - 1 then 4 else 0), s)
      else if off = 0x04 then (conf1 s, s)
      else if off = 0x06 then (conf2 s, s)
      else if off = 0x08 then
        (let s1 = refresh_it_rx s; v = it s1
         in (v, update_irq (s1\<lparr>it := unset_bit IT_NATR (unset_bit IT_WT (unset_bit IT_OV (unset_bit IT_TX v)))\<rparr>)))
      else if off = 0x0A then (let (b, s1) = rx_pop s in (ucast b OR 0x100, update_irq s1))
      else if off = 0x0C then (0, s)
      else if off = 0x0E then (maskit s, s)
      else if off = 0x10 then (it_cd s, s)
      else (0, s))"

definition sim_write_cmd :: "(nat \<Rightarrow> int) \<Rightarrow> sim \<Rightarrow> u16 \<Rightarrow> sim" where
  "sim_write_cmd clk s v =
     (let s0 = s\<lparr>cmd := v\<rparr>;
          s1 = (if bit v CMD_START then deliver_atr (clk 0) (s0\<lparr>powered := True\<rparr>) else s0);
          s2 = (if bit v CMD_STOP then s1\<lparr>powered := False\<rparr> else s1)
      in if bit v CMD_CARDRST \<or> bit v CMD_IFRST then
           (let s3 = s2\<lparr>apdu := [], apdu_expected := 0, resp := [], rx_head := 0, rx_tail := 0,
                        selected_df := 0x3F00, selected_ef := 0x3F00\<rparr>
            in if powered s3 then deliver_atr (clk 1) s3 else s3)
         else s2)"

definition sim_write_conf1 :: "(nat \<Rightarrow> int) \<Rightarrow> sim \<Rightarrow> u16 \<Rightarrow> sim" where
  "sim_write_conf1 clk s v =
     (let old = conf1 s;
          s0 = s\<lparr>conf1 := v\<rparr>;
          s1 = (if bit v CONF1_SVCCLEV then s0\<lparr>powered := True\<rparr> else s0);
          s2 = (if \<not> bit v CONF1_SRSTLEV \<and> bit old CONF1_SRSTLEV
                then s1\<lparr>atr_manual_done := False, rx_head := 0, rx_tail := 0, apdu := [], apdu_expected := 0\<rparr> else s1);
          s3 = (if bit v CONF1_BYPASS \<and> powered s2 \<and> \<not> atr_manual_done s2
                   \<and> (bit v CONF1_SCLKEN \<and> \<not> bit old CONF1_SCLKEN \<or> bit v CONF1_SRSTLEV \<and> \<not> bit old CONF1_SRSTLEV)
                then schedule_atr (clk 0) (s2\<lparr>atr_manual_done := True\<rparr>) else s2)
      in if \<not> bit v CONF1_SVCCLEV \<and> bit old CONF1_SVCCLEV then s3\<lparr>atr_manual_done := False\<rparr> else s3)"

definition sim_write_maskit :: "(nat \<Rightarrow> int) \<Rightarrow> sim \<Rightarrow> u16 \<Rightarrow> sim" where
  "sim_write_maskit clk s v =
     (let s1 = update_irq (s\<lparr>maskit := v\<rparr>)
      in if \<not> bit v IT_WT \<and> \<not> bit (it s1) IT_WT \<and> rx_count s1 = 0 then schedule_wt (clk 0) s1 else s1)"

definition calypso_sim_reg_write :: "(nat \<Rightarrow> int) \<Rightarrow> sim \<Rightarrow> hwaddr \<Rightarrow> u16 \<Rightarrow> sim" where
  "calypso_sim_reg_write clk s off v =
     (if off = 0x00 then sim_write_cmd clk s v
      else if off = 0x02 then s\<lparr>stat := v\<rparr>
      else if off = 0x04 then sim_write_conf1 clk s v
      else if off = 0x06 then s\<lparr>conf2 := v\<rparr>
      else if off = 0x0C then
        (let s1 = apdu_tx_byte clk s (ucast v) in s1\<lparr>tx_timer := Some (clk 4 + us_octet s1 * 1000)\<rparr>)
      else if off = 0x0E then sim_write_maskit clk s v
      else if off = 0x10 then s\<lparr>it_cd := v\<rparr>
      else s)"

text \<open>
  A new card: \<open>cfg\<close> is the content of the configuration file, if the environment names one that can be
  opened, \<open>us\<close> the transmission time of a byte.
\<close>

definition calypso_sim_new :: "bool \<Rightarrow> (string \<times> string) list option \<Rightarrow> int \<Rightarrow> sim" where
  "calypso_sim_new irq cfg us =
     (let c = load_config_from_file cfg \<lparr>cfg_files = sim_files, cfg_ki = replicate 16 0, cfg_ki_valid = False,
                cfg_smsc = ''+3366612340001'', in_test_sim = False\<rparr>
      in \<lparr>wired = irq, sirq = False, atr_timer = None, wt_timer = None, resp_timer = None, tx_timer = None,
          ki = cfg_ki c, ki_valid = cfg_ki_valid c, cmd = 0, stat = 0, conf1 = 0, conf2 = 0, maskit = 0, it_cd = 0, it = 0,
          apdu = [], apdu_expected = 0, rx = (\<lambda>_. 0), rx_head = 0, rx_tail = 0, selected_df = 0x3F00, selected_ef = 0x3F00,
          resp = [], powered = False, atr_manual_done = False, defer_resp = False, pend = [], last_tx_ns = 0,
          files = cfg_files c, store = (\<lambda>_. None), smsc = cfg_smsc c, rec_ef = 0, rec_cur = 0, us_octet = us\<rparr>)"

text \<open>The inputs: register accesses and the four timers, which fire once their deadline has passed.\<close>

datatype sim_in =
    SimRead hwaddr
  | SimWrite "nat \<Rightarrow> int" hwaddr u16
  | SimAtr int
  | SimWt int
  | SimResp int
  | SimTx int

fun sim_step :: "sim \<Rightarrow> sim_in \<Rightarrow> sim" where
  "sim_step s (SimRead off) = snd (calypso_sim_reg_read s off)"
| "sim_step s (SimWrite clk off v) = calypso_sim_reg_write clk s off v"
| "sim_step s (SimAtr now) = deliver_atr now (s\<lparr>atr_timer := None\<rparr>)"
| "sim_step s (SimWt now) = fire_wt now (s\<lparr>wt_timer := None\<rparr>)"
| "sim_step s (SimResp now) = resp_fire (s\<lparr>resp_timer := None\<rparr>)"
| "sim_step s (SimTx now) = tx_fire (s\<lparr>tx_timer := None\<rparr>)"

definition due :: "int option \<Rightarrow> int \<Rightarrow> bool" where
  "due t now \<longleftrightarrow> (case t of None \<Rightarrow> False | Some d \<Rightarrow> d \<le> now)"

fun sim_ok :: "sim \<Rightarrow> sim_in \<Rightarrow> bool" where
  "sim_ok s (SimAtr now) = due (atr_timer s) now"
| "sim_ok s (SimWt now) = due (wt_timer s) now"
| "sim_ok s (SimResp now) = due (resp_timer s) now"
| "sim_ok s (SimTx now) = due (tx_timer s) now"
| "sim_ok s _ = True"

section \<open>Invariant\<close>

text \<open>
  The files keep their identity, place and shape, and no two share an identifier; a file's data has
  64 bytes and a record store the size of its file.
\<close>

definition same_file :: "SimFile \<Rightarrow> SimFile \<Rightarrow> bool" where
  "same_file f g \<longleftrightarrow> fid f = fid g \<and> parent f = parent g \<and> fstruct f = fstruct g \<and> fsize f = fsize g
     \<and> rec_len f = rec_len g \<and> length (fdata f) = 64"

definition files_ok :: "SimFile list \<Rightarrow> bool" where
  "files_ok fs \<longleftrightarrow> list_all2 same_file fs sim_files"

definition file_shape :: "SimFile \<Rightarrow> bool" where
  "file_shape f \<longleftrightarrow> (fstruct f = EF_TRANSPARENT \<longrightarrow> fsize f \<le> 24) \<and> fsize f \<le> 704
     \<and> (is_record_file f \<longrightarrow> rec_len f \<noteq> 0 \<and> fsize f \<noteq> 0 \<and> unat (fsize f) mod unat (rec_len f) = 0)"

lemma sim_files_ok: "files_ok sim_files"
  by (simp add: files_ok_def sim_files_def same_file_def mk_file_def)

lemma sim_files_shape: "list_all file_shape sim_files" "distinct (map fid sim_files)"
  by (simp_all add: sim_files_def file_shape_def mk_file_def is_record_file_def)

lemma same_file_shape: "same_file f g \<Longrightarrow> file_shape f \<longleftrightarrow> file_shape g"
  by (simp add: same_file_def file_shape_def is_record_file_def)

lemma files_ok_nth:
  assumes "files_ok fs" and "k < length fs"
  shows "file_shape (fs ! k)" and "length (fdata (fs ! k)) = 64"
  using assms sim_files_shape(1) same_file_shape
  by (auto simp: files_ok_def list_all2_conv_all_nth list_all_length same_file_def)

lemma files_ok_fids: "files_ok fs \<Longrightarrow> map fid fs = map fid sim_files"
  by (auto simp: files_ok_def list_all2_conv_all_nth same_file_def intro: nth_equalityI)

lemma files_ok_update:
  "files_ok fs \<Longrightarrow> k < length fs \<Longrightarrow> length d = 64 \<Longrightarrow> files_ok (fs[k := (fs ! k)\<lparr>fdata := d\<rparr>])"
  by (auto simp: files_ok_def list_all2_conv_all_nth same_file_def nth_list_update)

lemma find_upt_Some: "find P [0..<n] = Some k \<Longrightarrow> k < n \<and> P k"
  by (auto simp: find_Some_iff)

lemma find_file_Some: "find_file fs i p = Some k \<Longrightarrow> k < length fs \<and> fid (fs ! k) = i"
  by (auto simp: find_file_def dest!: find_upt_Some split: option.splits if_splits)

lemma find_file_unique:
  assumes "files_ok fs" and "k < length fs" and "fid (fs ! k) = i"
  shows "find_file fs i 0 = Some k"
proof -
  have d: "distinct (map fid fs)" using files_ok_fids [OF assms(1)] sim_files_shape(2) by simp
  have "fid (fs ! j) \<noteq> i" if "j < k" for j
    using nth_eq_iff_index_eq [OF d, of j k] that assms(2,3) by auto
  then show ?thesis using assms(2,3) by (auto simp: find_file_def find_Some_iff intro!: exI [of _ k])
qed

lemma length_copy_at [simp]: "k + length xs \<le> length r \<Longrightarrow> length (copy_at k xs r) = length r"
  by (simp add: copy_at_def)

lemma copy_at_read: "k + length xs \<le> length r \<Longrightarrow> take (length xs) (drop k (copy_at k xs r)) = xs"
  by (simp add: copy_at_def)

lemma copy_at_elsewhere:
  assumes "k + length xs \<le> length r" and "j + n \<le> k \<or> k + length xs \<le> j"
  shows "take n (drop j (copy_at k xs r)) = take n (drop j r)"
proof (rule nth_equalityI)
  show "length (take n (drop j (copy_at k xs r))) = length (take n (drop j r))" using assms by simp
  fix i assume "i < length (take n (drop j (copy_at k xs r)))"
  then show "take n (drop j (copy_at k xs r)) ! i = take n (drop j r) ! i"
    using assms by (auto simp: copy_at_def nth_append)
qed


lemma length_fold_mark: "length (fold (\<lambda>r st. st[g r := x]) rs st) = length st"
  by (induction rs arbitrary: st) simp_all

lemma length_smsp_bcd: "length (snd (smsp_bcd d n bcd)) = length bcd"
  by (induction d n bcd rule: smsp_bcd.induct) simp_all

lemma smsp_bcd_bound: "n \<le> 20 \<Longrightarrow> fst (smsp_bcd d n bcd) \<le> 20"
  by (induction d n bcd rule: smsp_bcd.induct) simp_all

lemma length_smsp_remplir:
  assumes "length r = 28"
  shows "length (smsp_remplir c r) = 28"
proof -
  obtain ton d where td: "(case c of x # d \<Rightarrow> if x = CHR ''+'' then (0x91, d) else (0x81 :: u8, c) | [] \<Rightarrow> (0x81, c)) = (ton, d)"
    by (metis surj_pair)
  obtain n bcd where nb: "smsp_bcd d 0 (replicate 10 0xFF) = (n, bcd)" by (metis surj_pair)
  have "n \<le> 20" using smsp_bcd_bound [of 0 d "replicate 10 0xFF"] nb by simp
  moreover have "length bcd = 10" using length_smsp_bcd [of d 0 "replicate 10 0xFF"] nb by simp
  ultimately show ?thesis using assms unfolding smsp_remplir_def Let_def td by (simp add: nb)
qed

lemma length_rec_store_init:
  assumes "fid f = 0x6F42 \<Longrightarrow> fsize f = 28"
  shows "length (rec_store_init c f) = unat (fsize f)"
  using assms by (auto simp: rec_store_init_def Let_def length_fold_mark intro: length_smsp_remplir)

text \<open>The card: its files and record stores, the key, and the sizes of the two answer buffers.\<close>

definition store_ok :: "sim \<Rightarrow> bool" where
  "store_ok s \<longleftrightarrow> (\<forall>k b. store s k = Some b \<longrightarrow> k < length (files s) \<longrightarrow> length b = unat (fsize (files s ! k)))"

definition card_ok :: "sim \<Rightarrow> bool" where
  "card_ok s \<longleftrightarrow> files_ok (files s) \<and> store_ok s \<and> length (ki s) = 16 \<and> length (resp s) \<le> 64 \<and> length (pend s) \<le> 277"

text \<open>The part of the state a card command does not touch.\<close>

definition sim_io :: "sim \<Rightarrow> bool \<times> bool \<times> u16 \<times> u16 \<times> u8 list \<times> nat \<times> (nat \<Rightarrow> u8) \<times> nat \<times> nat \<times> bool \<times> bool \<times> u8 list \<times> bool" where
  "sim_io s = (wired s, sirq s, maskit s, it s, apdu s, apdu_expected s, rx s, rx_head s, rx_tail s, powered s, defer_resp s, ki s, ki_valid s)"

lemma rx_push_card:
  assumes "defer_resp s"
  shows "rx_push s b = (if length (pend s) < 277 then s\<lparr>pend := pend s @ [b]\<rparr> else s)"
  using assms by (simp add: rx_push_def)

text \<open>\<open>keeps s t\<close>: from a card that is well formed in \<open>s\<close>, an operation on the card led to \<open>t\<close>.\<close>

definition keeps :: "sim \<Rightarrow> sim \<Rightarrow> bool" where
  "keeps s t \<longleftrightarrow> (defer_resp s \<and> card_ok s \<longrightarrow> card_ok t \<and> sim_io t = sim_io s)"

lemma keeps_refl [intro, simp]: "keeps s s"
  by (simp add: keeps_def)

lemma keeps_trans: "keeps s t \<Longrightarrow> keeps t u \<Longrightarrow> keeps s u"
  by (auto simp: keeps_def sim_io_def)

lemma keeps_rx_push: "keeps s (rx_push s b)"
  by (auto simp: keeps_def rx_push_card card_ok_def sim_io_def store_ok_def)

lemma keeps_rx_push_n: "keeps s (rx_push_n s bs)"
proof (induction bs arbitrary: s)
  case (Cons b bs)
  then show ?case using keeps_trans [OF keeps_rx_push [of s b]] by (simp add: rx_push_n_def)
qed (simp add: rx_push_n_def)

lemma keeps_respond_sw: "keeps s t \<Longrightarrow> keeps s (respond_sw t a b)"
  unfolding respond_sw_def by (intro keeps_trans [OF keeps_trans [OF _ keeps_rx_push] keeps_rx_push])

lemma keeps_respond_push: "keeps s t \<Longrightarrow> keeps s (respond_sw (rx_push_n t bs) a b)"
  by (intro keeps_respond_sw keeps_trans [OF _ keeps_rx_push_n])

lemma card_ok_fields:
  "card_ok (t\<lparr>selected_df := i\<rparr>) = card_ok t" "card_ok (t\<lparr>selected_ef := i\<rparr>) = card_ok t" "card_ok (t\<lparr>rec_ef := i\<rparr>) = card_ok t"
  "card_ok (t\<lparr>rec_cur := n\<rparr>) = card_ok t" "card_ok (t\<lparr>resp_timer := r\<rparr>) = card_ok t"
  "length d \<le> 64 \<Longrightarrow> card_ok t \<Longrightarrow> card_ok (t\<lparr>resp := d\<rparr>)"
  by (simp_all add: card_ok_def store_ok_def)

lemma sim_io_fields:
  "sim_io (t\<lparr>selected_df := i\<rparr>) = sim_io t" "sim_io (t\<lparr>selected_ef := i\<rparr>) = sim_io t" "sim_io (t\<lparr>rec_ef := i\<rparr>) = sim_io t"
  "sim_io (t\<lparr>rec_cur := n\<rparr>) = sim_io t" "sim_io (t\<lparr>resp_timer := r\<rparr>) = sim_io t" "sim_io (t\<lparr>resp := d\<rparr>) = sim_io t"
  "sim_io (t\<lparr>pend := p\<rparr>) = sim_io t" "sim_io (t\<lparr>files := fs\<rparr>) = sim_io t" "sim_io (t\<lparr>store := m\<rparr>) = sim_io t"
  by (simp_all add: sim_io_def)

lemma keeps_fields:
  "keeps s t \<Longrightarrow> keeps s (t\<lparr>selected_df := i\<rparr>)" "keeps s t \<Longrightarrow> keeps s (t\<lparr>selected_ef := i\<rparr>)"
  "keeps s t \<Longrightarrow> keeps s (t\<lparr>rec_ef := i\<rparr>)" "keeps s t \<Longrightarrow> keeps s (t\<lparr>rec_cur := n\<rparr>)"
  "keeps s t \<Longrightarrow> length d \<le> 64 \<Longrightarrow> keeps s (t\<lparr>resp := d\<rparr>)" "keeps s t \<Longrightarrow> keeps s (t\<lparr>resp_timer := r\<rparr>)"
  by (simp_all add: keeps_def card_ok_fields sim_io_fields)

lemma keeps_respond_with_data_pending: "keeps s t \<Longrightarrow> keeps s (respond_with_data_pending t d)"
  by (simp add: respond_with_data_pending_def Let_def keeps_respond_sw keeps_fields)

lemma keeps_cmd_select: "keeps s (cmd_select s lc d)"
  unfolding cmd_select_def Let_def
  by (auto split: option.splits if_splits intro!: keeps_respond_sw keeps_respond_with_data_pending keeps_fields)

lemma keeps_cmd_get_response: "keeps s (cmd_get_response s le)"
  unfolding cmd_get_response_def Let_def by (auto intro!: keeps_respond_sw keeps_respond_push keeps_fields(5))

lemma keeps_rec_store:
  assumes "keeps s t" and "k < length (files t)"
  shows "keeps s (snd (rec_store k t))"
proof -
  have "fsize (files t ! k) = 28" if "files_ok (files t)" "fid (files t ! k) = 0x6F42"
  proof -
    have "list_all (\<lambda>f. fid f = 0x6F42 \<longrightarrow> fsize f = 28) sim_files" by (simp add: sim_files_def mk_file_def)
    then show ?thesis using that assms(2) by (auto simp: files_ok_def list_all2_conv_all_nth list_all_length same_file_def)
  qed
  then have "keeps t (snd (rec_store k t))"
    using length_rec_store_init [of "files t ! k" "smsc t"]
    by (auto simp: keeps_def rec_store_def Let_def card_ok_def sim_io_fields store_ok_def split: option.splits)
  then show ?thesis using assms(1) keeps_trans by blast
qed

lemma keeps_cmd_read_record: "keeps s (cmd_read_record s r mode le)"
proof (cases "find_file (files s) (selected_ef s) 0")
  case None
  then show ?thesis by (simp add: cmd_read_record_def keeps_respond_sw)
next
  case (Some k)
  define s1 where "s1 = (if rec_ef s \<noteq> selected_ef s then s\<lparr>rec_ef := selected_ef s, rec_cur := 0\<rparr> else s)"
  have s1: "keeps s s1" "files s1 = files s" by (auto simp: s1_def intro!: keeps_fields)
  have "keeps s (snd (rec_store k (s1\<lparr>rec_cur := n\<rparr>)))" for n
    using find_file_Some [OF Some] s1 by (intro keeps_rec_store keeps_fields(4)) simp_all
  then show ?thesis
    using s1(1) unfolding cmd_read_record_def Some option.case Let_def s1_def [symmetric]
    by (auto simp: case_prod_beta intro!: keeps_respond_sw keeps_respond_push)
qed

lemma keeps_cmd_read_binary: "keeps s (cmd_read_binary s p1 p2 le)"
  unfolding cmd_read_binary_def Let_def
  by (auto split: option.splits intro!: keeps_respond_sw keeps_respond_push)

lemma keeps_cmd_status: "keeps s (cmd_status s le)"
  unfolding cmd_status_def Let_def by (auto split: option.splits intro!: keeps_respond_sw keeps_respond_push)

lemma keeps_cmd_update_binary:
  assumes "unat lc \<le> length d"
  shows "keeps s (cmd_update_binary s p1 p2 lc d)"
proof (cases "find_file (files s) (selected_ef s) 0")
  case None
  then show ?thesis by (simp add: cmd_update_binary_def keeps_respond_sw)
next
  case (Some k)
  define o' where "o' = unat p1 * 256 + unat p2"
  have "keeps s (s\<lparr>files := (files s)[k := (files s ! k)\<lparr>fdata := copy_at o' (take (unat lc) d) (fdata (files s ! k))\<rparr>]\<rparr>)"
    if "o' + unat lc \<le> 64"
    using that assms find_file_Some [OF Some] files_ok_update [of "files s" k "copy_at o' (take (unat lc) d) (fdata (files s ! k))"]
      files_ok_nth(2) [of "files s" k]
    by (auto simp: keeps_def card_ok_def sim_io_fields store_ok_def nth_list_update)
  then show ?thesis
    unfolding cmd_update_binary_def Some option.case Let_def o'_def [symmetric] by (auto intro!: keeps_respond_sw)
qed

lemma keeps_store:
  assumes "keeps s t" and "card_ok t \<Longrightarrow> k < length (files t) \<Longrightarrow> length b = unat (fsize (files t ! k))"
  shows "keeps s (t\<lparr>store := (store t)(k := Some b)\<rparr>)"
proof -
  have "card_ok t \<Longrightarrow> card_ok (t\<lparr>store := (store t)(k := Some b)\<rparr>)"
    using assms(2) by (simp add: card_ok_def store_ok_def)
  then show ?thesis using assms(1) by (simp add: keeps_def sim_io_fields)
qed

lemma rec_store_fields:
  "files (snd (rec_store k s)) = files s" "fst (rec_store k s) = Some b \<Longrightarrow> store (snd (rec_store k s)) k = Some b"
  "selected_ef (snd (rec_store k s)) = selected_ef s" "pend (snd (rec_store k s)) = pend s" "defer_resp (snd (rec_store k s)) = defer_resp s"
  by (auto simp: rec_store_def Let_def split: if_splits option.splits)

text \<open>A record number within the file names a slice within its store.\<close>

lemma record_fits:
  assumes "r \<noteq> 0" and "unat r \<le> nrec f"
  shows "(unat r - 1) * unat (rec_len f) + unat (rec_len f) \<le> unat (fsize f)"
proof -
  have "0 < unat r" using assms(1) by (simp add: unat_gt_0)
  then have "(unat r - 1) * unat (rec_len f) + unat (rec_len f) = unat r * unat (rec_len f)"
    by (cases "unat r") simp_all
  also have "\<dots> \<le> nrec f * unat (rec_len f)" using assms(2) by (rule mult_right_mono) simp
  also have "\<dots> \<le> unat (fsize f)" by (simp add: nrec_def div_times_less_eq_dividend)
  finally show ?thesis .
qed

lemma keeps_cmd_update_record:
  assumes "\<And>d. data = Some d \<Longrightarrow> unat lc \<le> length d"
  shows "keeps s (cmd_update_record s r mode lc data)"
proof (cases "find_file (files s) (selected_ef s) 0")
  case None
  then show ?thesis by (simp add: cmd_update_record_def keeps_respond_sw)
next
  case (Some k)
  let ?f = "files s ! k" and ?t = "snd (rec_store k s)"
  note k = find_file_Some [OF Some]
  have ks: "keeps s ?t" using k by (intro keeps_rec_store) simp_all
  have up: "keeps s (?t\<lparr>store := (store ?t)(k := Some (copy_at ((unat r - 1) * unat (rec_len ?f)) (take (unat lc) d) b))\<rparr>)"
    if "fst (rec_store k s) = Some b" "data = Some d" "lc = rec_len ?f" "r \<noteq> 0" "unat r \<le> nrec ?f" for b d
  proof (rule keeps_store [OF ks])
    assume "card_ok ?t" "k < length (files ?t)"
    then have "length b = unat (fsize ?f)"
      using rec_store_fields(2) [OF that(1)] by (simp add: card_ok_def store_ok_def rec_store_fields(1))
    then show "length (copy_at ((unat r - 1) * unat (rec_len ?f)) (take (unat lc) d) b) = unat (fsize (files ?t ! k))"
      using record_fits [OF that(4,5)] that(3) assms [OF that(2)] by (simp add: rec_store_fields(1))
  qed
  have "keeps s (if mode = 0x04 then
        (let (st, s1) = rec_store k s
         in case (st, data) of (Some b, Some d) \<Rightarrow> s1\<lparr>store := (store s1)(k := Some (copy_at ((unat r - 1) * unat (rec_len ?f)) (take (unat lc) d) b))\<rparr>
            | _ \<Rightarrow> s1) else s)"
    if "lc = rec_len ?f" "mode = 0x04 \<longrightarrow> r \<noteq> 0 \<and> unat r \<le> nrec ?f"
    using up that ks by (cases "fst (rec_store k s)"; cases data) (auto simp: case_prod_beta)
  then show ?thesis
    unfolding cmd_update_record_def Some option.case Let_def
    by (auto simp: not_less simp del: One_nat_def intro!: keeps_respond_sw)
qed

lemma keeps_cmd_run_gsm_algo: "keeps s (cmd_run_gsm_algo s lc d)"
  by (simp add: cmd_run_gsm_algo_def keeps_respond_sw keeps_respond_with_data_pending)

text \<open>A complete command: a header and, when it sends data, as many bytes as the header says.\<close>

definition apdu_complete :: "u8 list \<Rightarrow> bool" where
  "apdu_complete c \<longleftrightarrow> 5 \<le> length c \<and> length c = 5 + (if is_outgoing_data (c ! 1) then unat (c ! 4) else 0)"

lemma keeps_raise_rx_irq: "keeps s t \<Longrightarrow> defer_resp t \<Longrightarrow> keeps s (raise_rx_irq now t)"
  by (simp add: raise_rx_irq_def keeps_fields)

lemma keeps_dispatch:
  assumes "apdu_complete (apdu s)" and "defer_resp s" and "card_ok s"
  shows "keeps s (dispatch_apdu now s)"
proof -
  define d where "d = drop 5 (apdu s)"
  define data where "data = (if length (apdu s) > 5 then Some d else None)"
  have d: "(case data of Some d \<Rightarrow> d | None \<Rightarrow> []) = d" by (auto simp: data_def d_def)
  have l: "unat (apdu s ! 4) \<le> length d" if "apdu s ! 1 = 0xD6 \<or> apdu s ! 1 = 0xDC"
    using assms(1) that by (auto simp: apdu_complete_def is_outgoing_data_def d_def)
  define s1 where "s1 = (if returns_data (apdu s ! 1) then rx_push s (apdu s ! 1) else s)"
  have s1: "keeps s s1" by (simp add: s1_def keeps_rx_push)
  define s2 where "s2 =
    (let ins = apdu s ! 1; p1 = apdu s ! 2; p2 = apdu s ! 3; p3 = apdu s ! 4
     in if ins = 0xA4 then cmd_select s1 p3 d
        else if ins = 0xB0 then cmd_read_binary s1 p1 p2 p3
        else if ins = 0xB2 then cmd_read_record s1 p1 p2 p3
        else if ins = 0xD6 then cmd_update_binary s1 p1 p2 p3 d
        else if ins = 0xDC then cmd_update_record s1 p1 p2 p3 data
        else if ins = 0xC0 then cmd_get_response s1 p3
        else if ins = 0xF2 then cmd_status s1 p3
        else if ins = 0x20 then cmd_verify_chv s1
        else if ins = 0x88 then cmd_run_gsm_algo s1 p3 d
        else respond_sw s1 0x6D 0x00)"
  have "keeps s1 s2"
    unfolding s2_def Let_def cmd_verify_chv_def using l
    by (auto simp: data_def intro!: keeps_cmd_select keeps_cmd_read_binary keeps_cmd_read_record keeps_cmd_update_binary
        keeps_cmd_update_record keeps_cmd_get_response keeps_cmd_status keeps_cmd_run_gsm_algo keeps_respond_sw)
  then have "keeps s s2" using s1 keeps_trans by blast
  moreover have "defer_resp s2" using calculation assms(2,3) by (simp add: keeps_def sim_io_def)
  ultimately have "keeps s (raise_rx_irq now s2)" by (rule keeps_raise_rx_irq)
  moreover have "dispatch_apdu now s = raise_rx_irq now s2"
    unfolding dispatch_apdu_def s2_def Let_def d_def [symmetric] data_def [symmetric] d s1_def [symmetric] by (rule refl)
  ultimately show ?thesis by simp
qed

section \<open>Exchanges\<close>

text \<open>
  \<open>sim_send xs s\<close>: the terminal writes the bytes of \<open>xs\<close> to the transmit register, each with its clock
  readings. \<open>paced\<close> bytes follow each other within the 500 ms after which a command is abandoned.
\<close>

definition sim_send :: "((nat \<Rightarrow> int) \<times> u8) list \<Rightarrow> sim \<Rightarrow> sim" where
  "sim_send xs = fold (\<lambda>(clk, b) s. apdu_tx_byte clk s b) xs"

fun paced :: "((nat \<Rightarrow> int) \<times> u8) list \<Rightarrow> bool" where
  "paced ((c, _) # (d, b) # xs) \<longleftrightarrow> d 0 - c 0 \<le> APDU_ABANDON_NS \<and> paced ((d, b) # xs)"
| "paced _ \<longleftrightarrow> True"

text \<open>A state in the middle of a command, with the acknowledgement in the delayed answer.\<close>

definition receiving :: "u8 list \<Rightarrow> nat \<Rightarrow> u8 list \<Rightarrow> int \<Rightarrow> int option \<Rightarrow> sim \<Rightarrow> sim" where
  "receiving c n p t r s = s\<lparr>apdu := c, apdu_expected := n, pend := p, last_tx_ns := t, resp_timer := r, defer_resp := False\<rparr>"

lemma apdu_byte_first:
  assumes "apdu s = []" and "apdu_expected s = 0" and "pend s = []"
  shows "apdu_tx_byte clk s b = receiving [b] 0 [] (clk 0) (resp_timer s) s"
  using assms by (simp add: apdu_tx_byte_def apdu_tx_byte_inner_def apdu_abandon_def receiving_def)

lemma receiving_inner:
  assumes "clk 0 - t \<le> APDU_ABANDON_NS" and "length c < 260" and "length c \<noteq> 4" and "Suc (length c) \<noteq> n"
  shows "apdu_tx_byte_inner clk ((receiving c n p t r s)\<lparr>defer_resp := True\<rparr>) b = (receiving (c @ [b]) n p (clk 0) r s)\<lparr>defer_resp := True\<rparr>"
  using assms by (simp add: apdu_tx_byte_inner_def apdu_abandon_def receiving_def)

lemma resp_delai_receiving: "resp_delai_ns (receiving c n p t r s) k = resp_delai_ns s k"
  by (simp add: resp_delai_ns_def receiving_def)

lemma apdu_byte_more:
  assumes "clk 0 - t \<le> APDU_ABANDON_NS" and "length c < 260" and "length c \<noteq> 4" and "Suc (length c) \<noteq> n"
  shows "\<exists>r'. apdu_tx_byte clk (receiving c n p t r s) b = receiving (c @ [b]) n p (clk 0) r' s"
proof -
  note i = receiving_inner [of clk t c n p r s b, OF assms]
  show ?thesis unfolding apdu_tx_byte_def i Let_def
    by (intro exI [of _ "if p = [] then r else Some (clk 3 + resp_delai_ns (receiving (c @ [b]) n p (clk 0) r s) (length p))"])
      (simp add: receiving_def)
qed

lemma sim_send_more:
  assumes "paced ((clk, x) # xs)" and "length c + length xs < 261" and "4 < length c \<or> length c + length xs < 5"
    and "length c + length xs < n \<or> n = 0"
  shows "\<exists>t r'. sim_send xs (receiving c n p (clk 0) r s) = receiving (c @ map snd xs) n p t r' s
    \<and> t = (if xs = [] then clk 0 else fst (last xs) 0)"
  using assms
proof (induction xs arbitrary: c clk x r)
  case Nil
  then show ?case by (auto simp: sim_send_def)
next
  case (Cons y xs)
  obtain d b where y: "y = (d, b)" by (cases y)
  have "d 0 - clk 0 \<le> APDU_ABANDON_NS" and p: "paced ((d, b) # xs)" using Cons.prems(1) y by simp_all
  then obtain r' where r': "apdu_tx_byte d (receiving c n p (clk 0) r s) b = receiving (c @ [b]) n p (d 0) r' s"
    using apdu_byte_more [of d "clk 0" c n p r s b] Cons.prems by auto
  from Cons.IH [OF p, of "c @ [b]" r'] Cons.prems
  show ?case by (auto simp: sim_send_def y r')
qed

text \<open>The state after a complete command: the card has executed it, and its delayed answer is timed.\<close>

definition executed :: "int \<Rightarrow> u8 list \<Rightarrow> u8 list \<Rightarrow> int \<Rightarrow> int option \<Rightarrow> int option \<Rightarrow> sim \<Rightarrow> sim" where
  "executed now c p t r r' s =
     (dispatch_apdu now ((receiving c (length c) p t r s)\<lparr>defer_resp := True\<rparr>))
       \<lparr>apdu := [], apdu_expected := 0, defer_resp := False, resp_timer := r'\<rparr>"

lemma same_resp_timer: "s\<lparr>resp_timer := resp_timer s\<rparr> = s"
  by (cases s) simp

lemma apdu_byte_last:
  assumes "clk 0 - t \<le> APDU_ABANDON_NS" and "length c < 260" and "4 < length c" and "Suc (length c) = n"
  shows "\<exists>r'. apdu_tx_byte clk (receiving c n p t r s) b = executed (clk 2) (c @ [b]) p (clk 0) r r' s"
proof -
  have 1: "apdu_tx_byte_inner clk ((receiving c n p t r s)\<lparr>defer_resp := True\<rparr>) b =
      (dispatch_apdu (clk 2) ((receiving (c @ [b]) n p (clk 0) r s)\<lparr>defer_resp := True\<rparr>))\<lparr>apdu := [], apdu_expected := 0\<rparr>"
    using assms by (simp add: apdu_tx_byte_inner_def apdu_abandon_def receiving_def,
        intro arg_cong [where f = "\<lambda>x. (dispatch_apdu (clk 2) x)\<lparr>apdu := [], apdu_expected := 0\<rparr>"], simp)
  let ?x = "(dispatch_apdu (clk 2) ((receiving (c @ [b]) n p (clk 0) r s)\<lparr>defer_resp := True\<rparr>))\<lparr>apdu := [], apdu_expected := 0, defer_resp := False\<rparr>"
  have "length (c @ [b]) = n" using assms(4) by simp
  note e = executed_def [of "clk 2" "c @ [b]" p "clk 0" r _ s, unfolded this]
  show ?thesis
    unfolding apdu_tx_byte_def 1 e Let_def
    by (intro exI [of _ "if pend ?x = [] then resp_timer ?x else Some (clk 3 + resp_delai_ns ?x (length (pend ?x)))"])
      (simp add: same_resp_timer [symmetric])
qed

lemma apdu_byte_header_data:
  assumes "clk 0 - t \<le> APDU_ABANDON_NS" and "length c = 4" and "is_outgoing_data (c ! 1)" and "b \<noteq> 0" and "length p < 277"
  shows "\<exists>r'. apdu_tx_byte clk (receiving c 0 p t r s) b = receiving (c @ [b]) (5 + unat b) (p @ [c ! 1]) (clk 0) r' s"
proof -
  have "unat b \<noteq> 0" using assms(4) by (simp add: unat_eq_zero)
  define r' where "r' = Some (clk 1 + resp_delai_ns s (Suc (length p)))"
  have 1: "apdu_tx_byte_inner clk ((receiving c 0 p t r s)\<lparr>defer_resp := True\<rparr>) b =
      (receiving (c @ [b]) (5 + unat b) (p @ [c ! 1]) (clk 0) r' s)\<lparr>defer_resp := True\<rparr>"
    using assms \<open>unat b \<noteq> 0\<close> by (simp add: apdu_tx_byte_inner_def apdu_abandon_def receiving_def apdu_header_def nth_append Let_def
        raise_rx_irq_def rx_push_def resp_delai_ns_def r'_def)
  show ?thesis unfolding apdu_tx_byte_def 1 Let_def
    by (intro exI [of _ "Some (clk 3 + resp_delai_ns (receiving (c @ [b]) (5 + unat b) (p @ [c ! 1]) (clk 0) r' s) (Suc (length p)))"])
      (simp add: receiving_def)
qed

lemma apdu_byte_header_exec:
  assumes "clk 0 - t \<le> APDU_ABANDON_NS" and "length c = 4" and "\<not> is_outgoing_data (c ! 1) \<or> b = 0"
  shows "\<exists>r'. apdu_tx_byte clk (receiving c 0 p t r s) b = executed (clk 2) (c @ [b]) p (clk 0) r r' s"
proof -
  have h: "apdu_header now x = x\<lparr>apdu_expected := 5\<rparr>" if "apdu x = c @ [b]" for now x
    using assms(2,3) that by (auto simp: apdu_header_def nth_append)
  have 1: "apdu_tx_byte_inner clk ((receiving c 0 p t r s)\<lparr>defer_resp := True\<rparr>) b =
      (dispatch_apdu (clk 2) ((receiving (c @ [b]) 5 p (clk 0) r s)\<lparr>defer_resp := True\<rparr>))\<lparr>apdu := [], apdu_expected := 0\<rparr>"
    using assms(1,2) by (simp add: apdu_tx_byte_inner_def apdu_abandon_def receiving_def h,
        intro arg_cong [where f = "\<lambda>x. (dispatch_apdu (clk 2) x)\<lparr>apdu := [], apdu_expected := 0\<rparr>"], simp)
  let ?x = "(dispatch_apdu (clk 2) ((receiving (c @ [b]) 5 p (clk 0) r s)\<lparr>defer_resp := True\<rparr>))\<lparr>apdu := [], apdu_expected := 0, defer_resp := False\<rparr>"
  have "length (c @ [b]) = 5" using assms(2) by simp
  note e = executed_def [of "clk 2" "c @ [b]" p "clk 0" r _ s, unfolded this]
  show ?thesis
    unfolding apdu_tx_byte_def 1 e Let_def
    by (intro exI [of _ "if pend ?x = [] then resp_timer ?x else Some (clk 3 + resp_delai_ns ?x (length (pend ?x)))"])
      (simp add: same_resp_timer [symmetric])
qed

lemma paced_snoc:
  "paced ((k, b) # ws @ [(kz, bz)]) \<Longrightarrow> paced ((k, b) # ws)"
  "paced ((k, b) # ws @ [(kz, bz)]) \<Longrightarrow> kz 0 - (if ws = [] then k 0 else fst (last ws) 0) \<le> APDU_ABANDON_NS"
  by (induction ws arbitrary: k b) auto

text \<open>Sending a complete command executes it, after acknowledging the header of one that sends data.\<close>

definition ack_of :: "u8 list \<Rightarrow> u8 list" where
  "ack_of c = (if is_outgoing_data (c ! 1) \<and> c ! 4 \<noteq> 0 then [c ! 1] else [])"

lemma sim_send_command:
  assumes "apdu s = []" and "apdu_expected s = 0" and "pend s = []" and "map snd xs = c" and "apdu_complete c" and "paced xs"
  shows "\<exists>now t r r'. sim_send xs s = executed now c (ack_of c) t r r' s"
proof -
  have lx: "length xs = length c" and l5: "5 \<le> length c" using assms(4,5) by (auto simp: apdu_complete_def)
  have "\<exists>k0 b0 k1 b1 k2 b2 k3 b3 k4 b4 zs. xs = (k0, b0) # (k1, b1) # (k2, b2) # (k3, b3) # (k4, b4) # zs"
    using l5 lx by (auto simp: numeral_eq_Suc Suc_le_length_iff dest!: length_Suc_conv [THEN iffD1] split: list.splits)
  then obtain k0 b0 k1 b1 k2 b2 k3 b3 k4 b4 zs where xs: "xs = (k0, b0) # (k1, b1) # (k2, b2) # (k3, b3) # (k4, b4) # zs" by blast
  have c: "c = [b0, b1, b2, b3, b4] @ map snd zs" using assms(4) xs by simp
  have send: "sim_send (ys @ zs) s = sim_send zs (sim_send ys s)" for ys zs s by (simp add: sim_send_def)
  have "sim_send [(k0, b0)] s = receiving [b0] 0 [] (k0 0) (resp_timer s) s"
    using apdu_byte_first [OF assms(1-3)] by (simp add: sim_send_def)
  moreover obtain r where "sim_send [(k1, b1), (k2, b2), (k3, b3)] (receiving [b0] 0 [] (k0 0) (resp_timer s) s) = receiving [b0, b1, b2, b3] 0 [] (k3 0) r s"
    using sim_send_more [of k0 b0 "[(k1, b1), (k2, b2), (k3, b3)]" "[b0]" 0 "[]" "resp_timer s" s] assms(6) xs by auto
  ultimately have h: "sim_send xs s = sim_send ((k4, b4) # zs) (receiving [b0, b1, b2, b3] 0 [] (k3 0) r s)"
    using send [of "[(k0, b0)]" "[(k1, b1), (k2, b2), (k3, b3)]" s] send [of "[(k0, b0), (k1, b1), (k2, b2), (k3, b3)]" "(k4, b4) # zs" s] xs by simp
  have pz: "paced ((k4, b4) # zs)" "k4 0 - k3 0 \<le> APDU_ABANDON_NS" using assms(6) xs by simp_all
  show ?thesis
  proof (cases "is_outgoing_data b1 \<and> b4 \<noteq> 0")
    case False
    then have "zs = []" using assms(5) c by (auto simp: apdu_complete_def split: if_splits)
    obtain r' where "apdu_tx_byte k4 (receiving [b0, b1, b2, b3] 0 [] (k3 0) r s) b4 = executed (k4 2) ([b0, b1, b2, b3] @ [b4]) [] (k4 0) r r' s"
      using apdu_byte_header_exec [of k4 "k3 0" "[b0, b1, b2, b3]" b4 "[]" r s] pz(2) False by auto
    then have "sim_send xs s = executed (k4 2) c (ack_of c) (k4 0) r r' s"
      unfolding h \<open>zs = []\<close> c ack_of_def using False by (auto simp: sim_send_def)
    then show ?thesis by blast
  next
    case True
    then have lz: "length zs = unat b4" "0 < unat b4" using assms(5) c unat_gt_0 [of b4] by (auto simp: apdu_complete_def)
    then obtain ws kz bz where zs: "zs = ws @ [(kz, bz)]" by (metis append_butlast_last_id length_greater_0_conv surj_pair)
    obtain r1 where "apdu_tx_byte k4 (receiving [b0, b1, b2, b3] 0 [] (k3 0) r s) b4 = receiving [b0, b1, b2, b3, b4] (5 + unat b4) [b1] (k4 0) r1 s"
      using apdu_byte_header_data [of k4 "k3 0" "[b0, b1, b2, b3]" b4 "[]" r s] pz(2) True by auto
    then have h1: "sim_send xs s = sim_send (ws @ [(kz, bz)]) (receiving [b0, b1, b2, b3, b4] (5 + unat b4) [b1] (k4 0) r1 s)"
      unfolding h zs by (simp add: sim_send_def)
    have pw: "paced ((k4, b4) # ws)" and tz: "kz 0 - (if ws = [] then k4 0 else fst (last ws) 0) \<le> APDU_ABANDON_NS"
      using pz(1) unfolding zs by (rule paced_snoc)+
    have lw: "length ws + 1 = unat b4" "unat b4 < 256" using lz zs unat_lt2p [of b4] by simp_all
    obtain r2 where h2: "sim_send ws (receiving [b0, b1, b2, b3, b4] (5 + unat b4) [b1] (k4 0) r1 s) =
        receiving ([b0, b1, b2, b3, b4] @ map snd ws) (5 + unat b4) [b1] (if ws = [] then k4 0 else fst (last ws) 0) r2 s"
      using sim_send_more [OF pw, of "[b0, b1, b2, b3, b4]" "5 + unat b4" "[b1]" r1 s] lw by auto
    obtain r3 where "apdu_tx_byte kz (receiving ([b0, b1, b2, b3, b4] @ map snd ws) (5 + unat b4) [b1] (if ws = [] then k4 0 else fst (last ws) 0) r2 s) bz =
        executed (kz 2) (([b0, b1, b2, b3, b4] @ map snd ws) @ [bz]) [b1] (kz 0) r2 r3 s"
      using apdu_byte_last [of kz "if ws = [] then k4 0 else fst (last ws) 0" "[b0, b1, b2, b3, b4] @ map snd ws" "5 + unat b4" "[b1]" r2 s bz]
        tz lw by auto
    moreover have "c = ([b0, b1, b2, b3, b4] @ map snd ws) @ [bz]" "ack_of c = [b1]" using c zs True by (simp_all add: ack_of_def)
    ultimately have "sim_send xs s = executed (kz 2) c (ack_of c) (kz 0) r2 r3 s"
      unfolding h1 send h2 by (simp add: sim_send_def)
    then show ?thesis by blast
  qed
qed

section \<open>Reachable states\<close>

text \<open>Less than a header has been received, or part of the data that the header announces.\<close>

definition apdu_ok :: "sim \<Rightarrow> bool" where
  "apdu_ok s \<longleftrightarrow> (length (apdu s) < 5 \<and> apdu_expected s = 0)
     \<or> (5 \<le> length (apdu s) \<and> is_outgoing_data (apdu s ! 1) \<and> apdu_expected s = 5 + unat (apdu s ! 4) \<and> length (apdu s) < apdu_expected s)"

definition ring_ok :: "sim \<Rightarrow> bool" where
  "ring_ok s \<longleftrightarrow> rx_head s < RX_FIFO_SIZE \<and> rx_tail s < RX_FIFO_SIZE"

definition sim_inv :: "sim \<Rightarrow> bool" where
  "sim_inv s \<longleftrightarrow> card_ok s \<and> apdu_ok s \<and> ring_ok s \<and> \<not> defer_resp s"

lemma sim_io_keeps:
  assumes "sim_io t = sim_io s"
  shows "apdu t = apdu s" "apdu_expected t = apdu_expected s" "defer_resp t = defer_resp s" "ring_ok t = ring_ok s" "apdu_ok t = apdu_ok s"
  using assms by (simp_all add: sim_io_def ring_ok_def apdu_ok_def)

lemma apdu_header_fields:
  assumes "defer_resp s" "card_ok s"
  shows "apdu (apdu_header now s) = apdu s" "card_ok (apdu_header now s)" "defer_resp (apdu_header now s)"
    "ring_ok (apdu_header now s) = ring_ok s"
    "apdu_expected (apdu_header now s) = (if is_outgoing_data (apdu s ! 1) then 5 + unat (apdu s ! 4) else 5)"
  using assms by (auto simp: apdu_header_def Let_def raise_rx_irq_def rx_push_def card_ok_def store_ok_def ring_ok_def)

lemma inner_receive:
  fixes s b now
  assumes "card_ok s" "apdu_ok s" "ring_ok s" "defer_resp s"
  defines "s2 \<equiv> s\<lparr>apdu := apdu s @ [b]\<rparr>"
  defines "s3 \<equiv> (if length (apdu s2) = 5 then apdu_header now s2 else s2)"
  shows "length (apdu s) < 260" and "card_ok s3 \<and> ring_ok s3 \<and> defer_resp s3"
    and "if length (apdu s3) = apdu_expected s3 then apdu_complete (apdu s3) else apdu_ok s3"
proof -
  show l: "length (apdu s) < 260"
    using assms(2) unat_lt2p [of "apdu s ! 4"] by (auto simp: apdu_ok_def)
  have s2: "card_ok s2" "ring_ok s2" "defer_resp s2" using assms(1,3,4) by (simp_all add: s2_def card_ok_def store_ok_def ring_ok_def)
  note h = apdu_header_fields [OF s2(3,1), of now]
  show "card_ok s3 \<and> ring_ok s3 \<and> defer_resp s3" using s2 h by (simp add: s3_def)
  show "if length (apdu s3) = apdu_expected s3 then apdu_complete (apdu s3) else apdu_ok s3"
  proof (cases "length (apdu s) = 4")
    case True
    then have "s3 = apdu_header now s2" "length (apdu s2) = 5" by (simp_all add: s3_def s2_def)
    then show ?thesis using h by (auto simp: apdu_ok_def apdu_complete_def)
  next
    case False
    then have "s3 = s2" by (simp add: s3_def s2_def)
    then show ?thesis using assms(2) False by (auto simp: s2_def apdu_ok_def apdu_complete_def nth_append)
  qed
qed

lemma inner_inv:
  assumes "card_ok s" "apdu_ok s" "ring_ok s" "defer_resp s"
  shows "card_ok (apdu_tx_byte_inner clk s b) \<and> apdu_ok (apdu_tx_byte_inner clk s b) \<and> ring_ok (apdu_tx_byte_inner clk s b)"
proof -
  define s1 where "s1 = (apdu_abandon (clk 0) s)\<lparr>last_tx_ns := clk 0\<rparr>"
  have s1: "card_ok s1" "apdu_ok s1" "ring_ok s1" "defer_resp s1"
    using assms by (simp_all add: s1_def apdu_abandon_def card_ok_def store_ok_def apdu_ok_def ring_ok_def)
  define s3 where "s3 = (if length (apdu (s1\<lparr>apdu := apdu s1 @ [b]\<rparr>)) = 5 then apdu_header (clk 1) (s1\<lparr>apdu := apdu s1 @ [b]\<rparr>) else s1\<lparr>apdu := apdu s1 @ [b]\<rparr>)"
  note r1 = inner_receive(1) [OF s1]
  note r = inner_receive(2,3) [OF s1, where b = b and now = "clk 1", folded s3_def]
  have e: "apdu_tx_byte_inner clk s b = (if length (apdu s3) = apdu_expected s3
      then (dispatch_apdu (clk 2) s3)\<lparr>apdu := [], apdu_expected := 0\<rparr> else s3)"
    using r1 unfolding apdu_tx_byte_inner_def Let_def s1_def [symmetric] s3_def by simp
  show ?thesis
  proof (cases "length (apdu s3) = apdu_expected s3")
    case True
    then have "keeps s3 (dispatch_apdu (clk 2) s3)" using r by (intro keeps_dispatch) simp_all
    then have "card_ok (dispatch_apdu (clk 2) s3)" "ring_ok (dispatch_apdu (clk 2) s3)"
      using r(1) sim_io_keeps(4) [of "dispatch_apdu (clk 2) s3" s3] by (simp_all add: keeps_def)
    then show ?thesis unfolding e using True by (simp add: card_ok_def store_ok_def ring_ok_def apdu_ok_def)
  next
    case False
    then show ?thesis unfolding e using r by simp
  qed
qed

lemma apdu_tx_byte_inv: "sim_inv s \<Longrightarrow> sim_inv (apdu_tx_byte clk s b)"
proof -
  assume "sim_inv s"
  then have "card_ok (s\<lparr>defer_resp := True\<rparr>)" "apdu_ok (s\<lparr>defer_resp := True\<rparr>)" "ring_ok (s\<lparr>defer_resp := True\<rparr>)"
    by (simp_all add: sim_inv_def card_ok_def store_ok_def apdu_ok_def ring_ok_def)
  from inner_inv [OF this, of clk b] show ?thesis
    by (simp add: apdu_tx_byte_def Let_def sim_inv_def card_ok_def store_ok_def apdu_ok_def ring_ok_def)
qed

lemma sim_inv_fields:
  "sim_inv (s\<lparr>cmd := v\<rparr>) = sim_inv s" "sim_inv (s\<lparr>stat := v\<rparr>) = sim_inv s" "sim_inv (s\<lparr>conf1 := v\<rparr>) = sim_inv s"
  "sim_inv (s\<lparr>conf2 := v\<rparr>) = sim_inv s" "sim_inv (s\<lparr>maskit := v\<rparr>) = sim_inv s" "sim_inv (s\<lparr>it_cd := v\<rparr>) = sim_inv s"
  "sim_inv (s\<lparr>it := v\<rparr>) = sim_inv s" "sim_inv (s\<lparr>sirq := b\<rparr>) = sim_inv s" "sim_inv (s\<lparr>powered := b\<rparr>) = sim_inv s"
  "sim_inv (s\<lparr>atr_manual_done := b\<rparr>) = sim_inv s" "sim_inv (s\<lparr>atr_timer := t\<rparr>) = sim_inv s" "sim_inv (s\<lparr>wt_timer := t\<rparr>) = sim_inv s"
  "sim_inv (s\<lparr>resp_timer := t\<rparr>) = sim_inv s" "sim_inv (s\<lparr>tx_timer := t\<rparr>) = sim_inv s"
  "sim_inv (s\<lparr>selected_df := v\<rparr>) = sim_inv s" "sim_inv (s\<lparr>selected_ef := v\<rparr>) = sim_inv s"
  by (simp_all add: sim_inv_def card_ok_def store_ok_def apdu_ok_def ring_ok_def)

lemma update_irq_inv [simp]: "sim_inv (update_irq s) = sim_inv s"
  by (simp add: update_irq_def refresh_it_rx_def Let_def sim_inv_fields)

lemma rx_push_inv: "sim_inv s \<Longrightarrow> sim_inv (rx_push s b)"
  by (auto simp: rx_push_def Let_def sim_inv_def card_ok_def store_ok_def apdu_ok_def ring_ok_def)

lemma rx_push_n_inv: "sim_inv s \<Longrightarrow> sim_inv (rx_push_n s bs)"
  by (induction bs arbitrary: s) (simp_all add: rx_push_n_def rx_push_inv)

lemma deliver_atr_inv: "sim_inv s \<Longrightarrow> sim_inv (deliver_atr now s)"
  using rx_push_n_inv [of s SIM_ATR] by (simp add: deliver_atr_def raise_rx_irq_def sim_inv_fields)

lemma sim_flush_inv:
  "sim_inv s \<Longrightarrow> sim_inv (s\<lparr>apdu := [], apdu_expected := 0, rx_head := 0, rx_tail := 0\<rparr>)"
  "sim_inv s \<Longrightarrow> sim_inv (s\<lparr>rx_head := 0, rx_tail := 0, apdu := [], apdu_expected := 0\<rparr>)"
  "sim_inv s \<Longrightarrow> sim_inv (s\<lparr>apdu := [], apdu_expected := 0, resp := [], rx_head := 0, rx_tail := 0\<rparr>)"
  "sim_inv s \<Longrightarrow> sim_inv (s\<lparr>pend := [], defer_resp := False\<rparr>)" "sim_inv s \<Longrightarrow> sim_inv (s\<lparr>defer_resp := False\<rparr>)"
  by (simp_all add: sim_inv_def card_ok_def store_ok_def apdu_ok_def ring_ok_def)

lemma sim_write_cmd_inv: "sim_inv s \<Longrightarrow> sim_inv (sim_write_cmd clk s v)"
  by (simp add: sim_write_cmd_def Let_def sim_inv_fields sim_flush_inv deliver_atr_inv)

lemma sim_write_conf1_inv: "sim_inv s \<Longrightarrow> sim_inv (sim_write_conf1 clk s v)"
  by (simp add: sim_write_conf1_def Let_def sim_inv_fields sim_flush_inv schedule_atr_def)

lemma sim_write_inv: "sim_inv s \<Longrightarrow> sim_inv (calypso_sim_reg_write clk s off v)"
  by (simp add: calypso_sim_reg_write_def Let_def sim_inv_fields sim_write_cmd_inv sim_write_conf1_inv apdu_tx_byte_inv
      sim_write_maskit_def schedule_wt_def)

lemma sim_read_inv: "sim_inv s \<Longrightarrow> sim_inv (snd (calypso_sim_reg_read s off))"
  by (auto simp: calypso_sim_reg_read_def Let_def sim_inv_fields refresh_it_rx_def case_prod_beta rx_pop_def)
    (simp add: sim_inv_def card_ok_def store_ok_def apdu_ok_def ring_ok_def)

lemma sim_step_inv: "sim_inv s \<Longrightarrow> sim_inv (sim_step s i)"
  by (cases i) (simp_all add: sim_read_inv sim_write_inv deliver_atr_inv fire_wt_def resp_fire_def tx_fire_def
      sim_inv_fields sim_flush_inv rx_push_n_inv)

definition cfg_ok :: "sim_cfg \<Rightarrow> bool" where
  "cfg_ok c \<longleftrightarrow> files_ok (cfg_files c) \<and> length (cfg_ki c) = 16"

lemma length_encode_imsi: "encode_imsi_bcd d = Some bcd \<Longrightarrow> length bcd = 9"
  by (auto simp: encode_imsi_bcd_def Let_def length_imsi_pairs split: if_splits)

lemma length_scan_ki: "length (snd (scan_ki beyond m n hex k)) = length k"
  by (induction beyond m n hex k rule: scan_ki.induct) (simp_all add: Let_def split: option.splits)

lemma files_ok_imsi:
  assumes "files_ok fs" and "find_file fs 0x6F07 p = Some k" and "length d = 64"
  shows "files_ok (fs[k := (fs ! k)\<lparr>fdata := d, fsize := 9\<rparr>])"
proof -
  have k: "k < length fs" "fid (fs ! k) = 0x6F07" using find_file_Some [OF assms(2)] by simp_all
  have "list_all (\<lambda>f. fid f = 0x6F07 \<longrightarrow> fsize f = 9) sim_files" by (simp add: sim_files_def mk_file_def)
  then have "fsize (sim_files ! k) = 9"
    using k assms(1) by (auto simp: files_ok_def list_all2_conv_all_nth list_all_length same_file_def)
  then show ?thesis
    using assms(1,3) k by (auto simp: files_ok_def list_all2_conv_all_nth same_file_def nth_list_update)
qed

lemma load_config_line_ok: "cfg_ok c \<Longrightarrow> cfg_ok (load_config_line l c)"
  unfolding load_config_line_def Let_def
  by (auto simp: cfg_ok_def case_prod_beta length_scan_ki length_encode_imsi files_ok_nth(2) dest: find_file_Some
      intro!: files_ok_imsi split: option.splits)

lemma fold_config_ok: "cfg_ok c \<Longrightarrow> cfg_ok (fold load_config_line ls c)"
  by (induction ls arbitrary: c) (simp_all add: load_config_line_ok)

lemma load_config_ok: "cfg_ok c \<Longrightarrow> cfg_ok (load_config_from_file ls c)"
  using fold_config_ok [of "c\<lparr>in_test_sim := False\<rparr>"] by (cases ls) (simp_all add: load_config_from_file_def cfg_ok_def)

lemma sim_inv_new: "sim_inv (calypso_sim_new irq cfg us)"
proof -
  let ?c = "load_config_from_file cfg \<lparr>cfg_files = sim_files, cfg_ki = replicate 16 0, cfg_ki_valid = False,
                cfg_smsc = ''+3366612340001'', in_test_sim = False\<rparr>"
  have "cfg_ok ?c" by (rule load_config_ok) (simp add: cfg_ok_def sim_files_ok)
  then show ?thesis
    unfolding calypso_sim_new_def Let_def by (simp add: cfg_ok_def sim_inv_def card_ok_def store_ok_def apdu_ok_def ring_ok_def)
qed

interpretation sim_dev: device sim_ok sim_step "calypso_sim_new irq cfg us" sim_inv for irq cfg us
  using sim_inv_new sim_step_inv by unfold_locales blast+

section \<open>What the card answers\<close>

lemma rx_push_n_deferred:
  "defer_resp s \<Longrightarrow> length (pend s) + length bs \<le> 277 \<Longrightarrow> rx_push_n s bs = s\<lparr>pend := pend s @ bs\<rparr>"
proof (induction bs arbitrary: s)
  case Nil
  then show ?case by (cases s) (simp add: rx_push_n_def)
next
  case (Cons b bs)
  then have "rx_push_n (s\<lparr>pend := pend s @ [b]\<rparr>) bs = s\<lparr>pend := (pend s @ [b]) @ bs\<rparr>" by simp
  then show ?case using Cons.prems by (simp add: rx_push_n_def rx_push_def)
qed

lemma respond_sw_deferred:
  "defer_resp s \<Longrightarrow> length (pend s) + 2 \<le> 277 \<Longrightarrow> respond_sw s a b = s\<lparr>pend := pend s @ [a, b]\<rparr>"
  using rx_push_n_deferred [of s "[a, b]"] by (simp add: respond_sw_def rx_push_n_def)

lemma executed_fields [simp]:
  "apdu (executed now c p t r r' s) = []" "apdu_expected (executed now c p t r r' s) = 0" "\<not> defer_resp (executed now c p t r r' s)"
  by (simp_all add: executed_def)

lemma raise_rx_irq_card [simp]:
  "pend (raise_rx_irq now s) = pend s" "files (raise_rx_irq now s) = files s" "store (raise_rx_irq now s) = store s"
  "selected_ef (raise_rx_irq now s) = selected_ef s" "resp (raise_rx_irq now s) = resp s" "ki (raise_rx_irq now s) = ki s"
  "rec_cur (raise_rx_irq now s) = rec_cur s"
  by (simp_all add: raise_rx_irq_def update_irq_def refresh_it_rx_def Let_def)

lemma rx_push_n_card [simp]:
  "files (rx_push_n s bs) = files s" "store (rx_push_n s bs) = store s" "selected_ef (rx_push_n s bs) = selected_ef s"
  "resp (rx_push_n s bs) = resp s" "apdu (rx_push_n s bs) = apdu s" "apdu_expected (rx_push_n s bs) = apdu_expected s"
  "ki (rx_push_n s bs) = ki s" "ki_valid (rx_push_n s bs) = ki_valid s"
  by (induction bs arbitrary: s; simp add: rx_push_n_def rx_push_def Let_def)+

lemma resp_fire_card [simp]:
  "files (resp_fire s) = files s" "store (resp_fire s) = store s" "selected_ef (resp_fire s) = selected_ef s" "resp (resp_fire s) = resp s"
  "apdu (resp_fire s) = apdu s" "apdu_expected (resp_fire s) = apdu_expected s" "pend (resp_fire s) = []"
  by (simp_all add: resp_fire_def update_irq_def refresh_it_rx_def Let_def)

text \<open>UPDATE BINARY and READ BINARY of a range that fits.\<close>

lemma executed_update_binary:
  fixes s cla p1 p2 d now t r r' k
  assumes "files_ok (files s)" and "find_file (files s) (selected_ef s) 0 = Some k" and "fstruct (files s ! k) = EF_TRANSPARENT"
    and "unat p1 * 256 + unat p2 + length d \<le> unat (fsize (files s ! k))" and "d \<noteq> []"
  defines "c \<equiv> [cla, 0xD6, p1, p2, of_nat (length d)] @ d"
  defines "x \<equiv> executed now c (ack_of c) t r r' s"
  shows "apdu_complete c" and "pend x = [0xD6, 0x90, 0x00]" and "selected_ef x = selected_ef s" and "store x = store s"
    and "files x = (files s)[k := (files s ! k)\<lparr>fdata := copy_at (unat p1 * 256 + unat p2) d (fdata (files s ! k))\<rparr>]"
proof -
  have k: "k < length (files s)" using find_file_Some [OF assms(2)] by simp
  have sz: "fsize (files s ! k) \<le> 24" using files_ok_nth(1) [OF assms(1) k] assms(3) by (simp add: file_shape_def)
  then have "unat (fsize (files s ! k)) \<le> 24" by (simp add: word_le_nat_alt)
  then have l: "length d \<le> 24" "unat p1 * 256 + unat p2 + length d \<le> 64" using assms(4) by simp_all
  then have u: "unat (of_nat (length d) :: u8) = length d" by (simp add: unat_of_nat take_bit_nat_eq_self)
  show "apdu_complete c" using u by (simp add: c_def apdu_complete_def is_outgoing_data_def)
  have nz: "(of_nat (length d) :: u8) \<noteq> 0" using u assms(5) by (metis length_0_conv unat_0)
  then have a: "ack_of c = [0xD6]" by (simp add: ack_of_def c_def is_outgoing_data_def)
  define y where "y = (receiving c (length c) [0xD6] t r s)\<lparr>defer_resp := True\<rparr>"
  define f where "f = (files s)[k := (files s ! k)\<lparr>fdata := copy_at (unat p1 * 256 + unat p2) d (fdata (files s ! k))\<rparr>]"
  have y: "apdu y = c" "defer_resp y" "pend y = [0xD6]" "files y = files s" "selected_ef y = selected_ef s" "store y = store s"
    by (simp_all add: y_def receiving_def)
  have "cmd_update_binary y p1 p2 (of_nat (length d)) d = y\<lparr>files := f, pend := [0xD6, 0x90, 0x00]\<rparr>"
    using assms(2-4) l u y by (simp add: cmd_update_binary_def f_def respond_sw_deferred Let_def)
  then have "dispatch_apdu now y = raise_rx_irq now (y\<lparr>files := f, pend := [0xD6, 0x90, 0x00]\<rparr>)"
    using assms(5) y by (simp add: dispatch_apdu_def c_def returns_data_def Let_def)
  then show "pend x = [0xD6, 0x90, 0x00]" "selected_ef x = selected_ef s" "store x = store s" "files x = (files s)[k := (files s ! k)\<lparr>fdata := copy_at (unat p1 * 256 + unat p2) d (fdata (files s ! k))\<rparr>]"
    by (simp_all add: x_def executed_def a y_def [symmetric] y f_def)
qed

lemma executed_read_binary:
  fixes s cla p1 p2 n now t r r' k
  assumes "files_ok (files s)" and "find_file (files s) (selected_ef s) 0 = Some k" and "fstruct (files s ! k) = EF_TRANSPARENT"
    and "unat p1 * 256 + unat p2 + n \<le> unat (fsize (files s ! k))" and "0 < n"
  defines "c \<equiv> [cla, 0xB0, p1, p2, of_nat n]"
  shows "apdu_complete c"
    and "pend (executed now c (ack_of c) t r r' s) = [0xB0] @ take n (drop (unat p1 * 256 + unat p2) (fdata (files s ! k))) @ [0x90, 0x00]"
proof -
  have k: "k < length (files s)" using find_file_Some [OF assms(2)] by simp
  have sz: "fsize (files s ! k) \<le> 24" using files_ok_nth(1) [OF assms(1) k] assms(3) by (simp add: file_shape_def)
  then have "unat (fsize (files s ! k)) \<le> 24" by (simp add: word_le_nat_alt)
  then have l: "n \<le> 24" using assms(4) by simp
  then have u: "unat (of_nat n :: u8) = n" by (simp add: unat_of_nat take_bit_nat_eq_self)
  show "apdu_complete c" by (simp add: c_def apdu_complete_def is_outgoing_data_def)
  have nz: "(of_nat n :: u8) \<noteq> 0" using u assms(5) by (metis less_irrefl unat_0)
  have a: "ack_of c = []" by (simp add: ack_of_def c_def is_outgoing_data_def)
  let ?b = "take n (drop (unat p1 * 256 + unat p2) (fdata (files s ! k)))"
  define y where "y = (receiving c (length c) [] t r s)\<lparr>defer_resp := True\<rparr>"
  have y: "apdu y = c" "defer_resp y" "pend y = []" "files y = files s" "selected_ef y = selected_ef s"
    by (simp_all add: y_def receiving_def)
  have "cmd_read_binary (y\<lparr>pend := [0xB0]\<rparr>) p1 p2 (of_nat n) = y\<lparr>pend := [0xB0] @ ?b @ [0x90, 0x00]\<rparr>"
    using assms(2-4) l u nz y by (simp add: cmd_read_binary_def respond_sw_deferred rx_push_n_deferred Let_def)
  then have "dispatch_apdu now y = raise_rx_irq now (y\<lparr>pend := [0xB0] @ ?b @ [0x90, 0x00]\<rparr>)"
    using y by (simp add: dispatch_apdu_def c_def returns_data_def rx_push_def Let_def)
  then show "pend (executed now c (ack_of c) t r r' s) = [0xB0] @ ?b @ [0x90, 0x00]"
    by (simp add: executed_def a y_def [symmetric] y)
qed

text \<open>C4. A file keeps what is written to it: on a reachable interface between commands, with a transparent file
  selected, UPDATE BINARY of a range of the file is acknowledged and accepted, and after the answer has been delivered
  READ BINARY of the same range answers the procedure byte, the bytes written and the status 90 00.\<close>

theorem sim_update_read:
  assumes "reaches sim_ok sim_step (calypso_sim_new irq cfg us) s" and "apdu s = []" and "pend s = []"
    and "find_file (files s) (selected_ef s) 0 = Some k" and "fstruct (files s ! k) = EF_TRANSPARENT"
    and "unat p1 * 256 + unat p2 + length d \<le> unat (fsize (files s ! k))" and "d \<noteq> []"
    and "map snd xs = [cla, 0xD6, p1, p2, of_nat (length d)] @ d" and "paced xs"
    and "map snd ys = [cla', 0xB0, p1, p2, of_nat (length d)]" and "paced ys"
  shows "pend (sim_send xs s) = [0xD6, 0x90, 0x00]
    \<and> pend (sim_send ys (resp_fire (sim_send xs s))) = [0xB0] @ d @ [0x90, 0x00]"
proof -
  have inv: "sim_inv s" using sim_dev.reachable_invar [OF assms(1)] .
  then have fok: "files_ok (files s)" and e0: "apdu_expected s = 0" using assms(2) by (auto simp: sim_inv_def card_ok_def apdu_ok_def)
  note u = executed_update_binary [OF fok assms(4-7), where cla = cla]
  obtain now t r r' where x: "sim_send xs s = executed now (map snd xs) (ack_of (map snd xs)) t r r' s"
    using sim_send_command [OF assms(2) e0 assms(3) refl _ assms(9)] u(1) assms(8) by auto
  note u = u(2-5) [where now = now and t = t and r = r and r' = r', folded assms(8), folded x]
  let ?s = "resp_fire (sim_send xs s)"
  let ?d = "copy_at (unat p1 * 256 + unat p2) d (fdata (files s ! k))"
  have k: "k < length (files s)" using find_file_Some [OF assms(4)] by simp
  have d64: "unat p1 * 256 + unat p2 + length d \<le> length (fdata (files s ! k))"
    using files_ok_nth [OF fok k] assms(5,6) by (auto simp: file_shape_def word_le_nat_alt)
  have s: "files ?s = (files s)[k := (files s ! k)\<lparr>fdata := ?d\<rparr>]" "selected_ef ?s = selected_ef s" using u by simp_all
  have fok2: "files_ok (files ?s)" unfolding s(1) using fok k d64 files_ok_nth(2) [OF fok k] by (intro files_ok_update) simp_all
  have fk: "files ?s ! k = (files s ! k)\<lparr>fdata := ?d\<rparr>" using k s(1) by simp
  have "find_file (files ?s) (selected_ef ?s) 0 = Some k"
    using find_file_Some [OF assms(4)] k by (intro find_file_unique [OF fok2]) (simp_all add: u)
  note v = executed_read_binary [OF fok2 this, where ?p1.0 = p1 and ?p2.0 = p2 and n = "length d" and cla = cla', unfolded fk, simplified, OF assms(5,6,7)]
  obtain now' t' q q' where "sim_send ys ?s = executed now' (map snd ys) (ack_of (map snd ys)) t' q q' ?s"
    using sim_send_command [of ?s ys "map snd ys"] v(1) assms(10,11) x by auto
  then have "pend (sim_send ys ?s) = [0xB0] @ take (length d) (drop (unat p1 * 256 + unat p2) ?d) @ [0x90, 0x00]"
    using v(2) by (simp add: assms(10))
  then show ?thesis using u(1) copy_at_read [OF d64] by simp
qed

definition sim_tick :: "nat \<Rightarrow> int" where
  "sim_tick n = 1000 * int n"

definition sim_imsi_selected :: "sim option" where
  "sim_imsi_selected = run sim_ok sim_step (calypso_sim_new True None 100)
     (map (SimWrite sim_tick 0x0C) [0xA0, 0xA4, 0x00, 0x00, 0x02, 0x6F, 0x07] @ [SimResp 1000000000])"

theorem sim_update_read_witness:
  "pend (sim_send (map (Pair sim_tick) [0xA0, 0xB0, 0, 3, 2])
      (resp_fire (sim_send (map (Pair sim_tick) [0xA0, 0xD6, 0, 3, 2, 0x12, 0x34]) (the sim_imsi_selected)))) = [0xB0, 0x12, 0x34, 0x90, 0x00]"
proof -
  have "map_option (\<lambda>s. (apdu s, pend s, find_file (files s) (selected_ef s) 0, fstruct (files s ! 4), fsize (files s ! 4))) sim_imsi_selected
      = Some ([], [], Some 4, EF_TRANSPARENT, 9)" by code_simp
  then obtain s where s: "sim_imsi_selected = Some s" "apdu s = []" "pend s = []" "find_file (files s) (selected_ef s) 0 = Some 4"
    "fstruct (files s ! 4) = EF_TRANSPARENT" "fsize (files s ! 4) = 9" by auto
  moreover have "reaches sim_ok sim_step (calypso_sim_new True None 100) s"
    using s(1) unfolding sim_imsi_selected_def by (rule run_reaches)
  ultimately show ?thesis
    using sim_update_read [where irq = True and cfg = None and us = 100 and s = s and k = 4 and ?p1.0 = 0 and ?p2.0 = 3 and d = "[0x12, 0x34]" and xs = "map (Pair sim_tick) [0xA0, 0xD6, 0, 3, 2, 0x12, 0x34]" and cla = "0xA0"
        and ys = "map (Pair sim_tick) [0xA0, 0xB0, 0, 3, 2]" and cla' = "0xA0"]
    by (simp add: s(1) option.sel)
qed

text \<open>RUN GSM ALGORITHM leaves the twelve bytes of COMP128 for GET RESPONSE.\<close>

lemma length_comp128v1: "length (fst (comp128v1 k r)) = 4" "length (snd (comp128v1 k r)) = 8"
  by (simp_all add: comp128v1_def Let_def)

lemma executed_run_gsm_algo:
  fixes s cla p1 p2 rnd now t r r'
  assumes "length rnd = 16" and "ki_valid s"
  defines "c \<equiv> [cla, 0x88, p1, p2, 16] @ rnd"
  defines "x \<equiv> executed now c (ack_of c) t r r' s"
  shows "apdu_complete c" and "pend x = [0x88, 0x9F, 12]" and "resp x = fst (comp128v1 (ki s) rnd) @ snd (comp128v1 (ki s) rnd)"
proof -
  show "apdu_complete c" using assms(1) by (simp add: c_def apdu_complete_def is_outgoing_data_def)
  have a: "ack_of c = [0x88]" by (simp add: ack_of_def c_def is_outgoing_data_def)
  let ?d = "fst (comp128v1 (ki s) rnd) @ snd (comp128v1 (ki s) rnd)"
  define y where "y = (receiving c (length c) [0x88] t r s)\<lparr>defer_resp := True\<rparr>"
  have y: "apdu y = c" "defer_resp y" "pend y = [0x88]" "ki y = ki s" "ki_valid y = ki_valid s"
    by (simp_all add: y_def receiving_def)
  have "cmd_run_gsm_algo y 16 rnd = y\<lparr>resp := ?d, pend := [0x88, 0x9F, 12]\<rparr>"
    using assms(2) y by (simp add: cmd_run_gsm_algo_def respond_with_data_pending_def respond_sw_deferred Let_def split_beta length_comp128v1)
  moreover have "rnd \<noteq> []" using assms(1) by auto
  ultimately have "dispatch_apdu now y = raise_rx_irq now (y\<lparr>resp := ?d, pend := [0x88, 0x9F, 12]\<rparr>)"
    using y by (simp add: dispatch_apdu_def c_def returns_data_def Let_def)
  then show "pend x = [0x88, 0x9F, 12]" "resp x = ?d"
    by (simp_all add: x_def executed_def a y_def [symmetric] y)
qed

lemma executed_get_response:
  fixes s cla p1 p2 now t r r'
  assumes "resp s \<noteq> []" and "length (resp s) \<le> 64"
  defines "c \<equiv> [cla, 0xC0, p1, p2, of_nat (length (resp s))]"
  shows "apdu_complete c" and "pend (executed now c (ack_of c) t r r' s) = [0xC0] @ resp s @ [0x90, 0x00]"
proof -
  show "apdu_complete c" by (simp add: c_def apdu_complete_def is_outgoing_data_def)
  have a: "ack_of c = []" by (simp add: ack_of_def c_def is_outgoing_data_def)
  have u: "unat (of_nat (length (resp s)) :: u8) = length (resp s)" using assms(2) by (simp add: unat_of_nat take_bit_nat_eq_self)
  define y where "y = (receiving c (length c) [] t r s)\<lparr>defer_resp := True\<rparr>"
  have y: "apdu y = c" "defer_resp y" "pend y = []" "resp y = resp s"
    by (simp_all add: y_def receiving_def)
  have "cmd_get_response (y\<lparr>pend := [0xC0]\<rparr>) (of_nat (length (resp s))) = y\<lparr>pend := [0xC0] @ resp s @ [0x90, 0x00], resp := []\<rparr>"
    using assms(1,2) u y by (simp add: cmd_get_response_def respond_sw_deferred rx_push_n_deferred Let_def)
  then have "dispatch_apdu now y = raise_rx_irq now (y\<lparr>pend := [0xC0] @ resp s @ [0x90, 0x00], resp := []\<rparr>)"
    using y by (simp add: dispatch_apdu_def c_def returns_data_def rx_push_def Let_def)
  then show "pend (executed now c (ack_of c) t r r' s) = [0xC0] @ resp s @ [0x90, 0x00]"
    by (simp add: executed_def a y_def [symmetric] y)
qed

text \<open>C12. The card authenticates: with a key configured, RUN GSM ALGORITHM on a challenge of sixteen bytes announces
  twelve bytes of answer, and GET RESPONSE returns SRES and Kc as COMP128 computes them from the key of the card.\<close>

theorem sim_authenticate:
  assumes "reaches sim_ok sim_step (calypso_sim_new irq cfg us) s" and "apdu s = []" and "pend s = []" and "ki_valid s"
    and "length rnd = 16" and "comp128v1 (ki s) rnd = (sres, kc)"
    and "map snd xs = [cla, 0x88, p1, p2, 16] @ rnd" and "paced xs"
    and "map snd ys = [cla', 0xC0, q1, q2, 12]" and "paced ys"
  shows "pend (sim_send xs s) = [0x88, 0x9F, 12] \<and> pend (sim_send ys (resp_fire (sim_send xs s))) = [0xC0] @ sres @ kc @ [0x90, 0x00]"
proof -
  have e0: "apdu_expected s = 0" using sim_dev.reachable_invar [OF assms(1)] assms(2) by (simp add: sim_inv_def apdu_ok_def)
  note u = executed_run_gsm_algo [OF assms(5,4), where cla = cla and ?p1.0 = p1 and ?p2.0 = p2, folded assms(7)]
  obtain now t r r' where x: "sim_send xs s = executed now (map snd xs) (ack_of (map snd xs)) t r r' s"
    using sim_send_command [OF assms(2) e0 assms(3) refl u(1) assms(8)] by blast
  note u = u(2,3) [where now = now and t = t and r = r and r' = r', folded x]
  let ?s = "resp_fire (sim_send xs s)"
  have rs: "resp ?s = sres @ kc" "length (sres @ kc) = 12"
    using u(2) length_comp128v1 [of "ki s" rnd] assms(6) by simp_all
  then have "resp ?s \<noteq> []" "length (resp ?s) \<le> 64" by auto
  note v = executed_get_response [OF this, where cla = cla' and ?p1.0 = q1 and ?p2.0 = q2]
  have ys: "map snd ys = [cla', 0xC0, q1, q2, of_nat (length (resp ?s))]" using assms(9) rs by simp
  obtain now' t' q q' where "sim_send ys ?s = executed now' (map snd ys) (ack_of (map snd ys)) t' q q' ?s"
    using sim_send_command [of ?s ys "map snd ys"] v(1) ys assms(10) x by auto
  then show ?thesis using v(2) ys u(1) rs by simp
qed

definition sim_ki_lines :: "(string \<times> string) list" where
  "sim_ki_lines = [(''test-sim'', []), ('' ki comp128 00 01 02 03 04 05 06 07 08 09 0a 0b 0c 0d 0e 0f'', [])]"

theorem sim_authenticate_witness:
  "pend (sim_send (map (Pair sim_tick) [0xA0, 0xC0, 0, 0, 12])
      (resp_fire (sim_send (map (Pair sim_tick) ([0xA0, 0x88, 0, 0, 16] @ replicate 16 7)) (calypso_sim_new True (Some sim_ki_lines) 100))))
    = [0xC0] @ fst (comp128v1 (map of_nat [0..<16]) (replicate 16 7)) @ snd (comp128v1 (map of_nat [0..<16]) (replicate 16 7)) @ [0x90, 0x00]"
proof -
  let ?s = "calypso_sim_new True (Some sim_ki_lines) 100"
  have "apdu ?s = []" "pend ?s = []" "ki_valid ?s" "ki ?s = (map of_nat [0..<16])" by code_simp+
  moreover have "paced (map (Pair sim_tick) ([0xA0, 0x88, 0, 0, 16] @ replicate 16 7))" by code_simp
  ultimately show ?thesis
    using sim_authenticate [of True "Some sim_ki_lines" 100 ?s "replicate 16 7" "fst (comp128v1 (map of_nat [0..<16]) (replicate 16 7))" "snd (comp128v1 (map of_nat [0..<16]) (replicate 16 7))"
        "map (Pair sim_tick) ([0xA0, 0x88, 0, 0, 16] @ replicate 16 7)" "0xA0" 0 0 "map (Pair sim_tick) [0xA0, 0xC0, 0, 0, 12]" "0xA0" 0 0]
    by (simp add: reaches_refl)
qed

section \<open>The answer reaches the driver\<close>

definition sim_rx :: "sim \<Rightarrow> u8 list" where
  "sim_rx s = ring_list RX_FIFO_SIZE (rx s) (rx_tail s) (rx_count s)"

definition sim_fifo :: "sim \<Rightarrow> bool" where
  "sim_fifo s \<longleftrightarrow> ring_ok s \<and> \<not> defer_resp s"

text \<open>What the driver does with the receive register: the low byte of a read of DRX.\<close>

definition sim_drx :: "sim \<Rightarrow> u8 \<times> sim" where
  "sim_drx s = (let (w, s1) = calypso_sim_reg_read s 0x0A in (ucast w, s1))"

lemma rx_count_cases:
  assumes "ring_ok s"
  shows "rx_count s < RX_FIFO_SIZE" and "(rx_tail s + rx_count s) mod RX_FIFO_SIZE = rx_head s"
    and "rx_head s = rx_tail s \<longleftrightarrow> rx_count s = 0" and "(rx_head s + 1) mod RX_FIFO_SIZE = rx_tail s \<longleftrightarrow> rx_count s = RX_FIFO_SIZE - 1"
  using assms by (auto simp: rx_count_def ring_ok_def mod_if split: if_splits)


lemma rx_fields_irq [simp]:
  "rx (update_irq s) = rx s" "rx_head (update_irq s) = rx_head s" "rx_tail (update_irq s) = rx_tail s" "defer_resp (update_irq s) = defer_resp s"
  by (simp_all add: update_irq_def refresh_it_rx_def Let_def)

lemma sim_rx_irq [simp]: "rx_count (update_irq s) = rx_count s" "sim_rx (update_irq s) = sim_rx s" "sim_fifo (update_irq s) = sim_fifo s"
  by (simp_all add: sim_rx_def rx_count_def sim_fifo_def ring_ok_def)

lemma drx_byte: "(ucast (ucast b OR 0x100 :: u16) :: u8) = b"
proof (rule bit_word_eqI)
  fix n assume "n < LENGTH(8)"
  moreover have "(0x100 :: u16) = push_bit 8 1" by simp
  ultimately show "bit (ucast (ucast b OR 0x100 :: u16) :: u8) n \<longleftrightarrow> bit b n"
    by (simp only: bit_or_iff bit_unsigned_iff bit_push_bit_iff) (simp add: bit_1_iff)
qed

lemma sim_drx_eq: "sim_drx s = (fst (rx_pop s), update_irq (snd (rx_pop s)))"
  by (simp add: sim_drx_def calypso_sim_reg_read_def drx_byte split_beta Let_def)

lemma ring_next: "i < 512 \<Longrightarrow> Suc i mod 512 = (if i = 511 then 0 else Suc i)" for i :: nat
  by simp

lemma sim_rx_push:
  assumes "sim_fifo s"
  shows "sim_fifo (rx_push s x)" and "sim_rx (rx_push s x) = (if length (sim_rx s) < 511 then sim_rx s @ [x] else sim_rx s)"
proof -
  have r: "ring_ok s" and d: "\<not> defer_resp s" using assms by (auto simp: sim_fifo_def)
  note c = rx_count_cases [OF r]
  show "sim_fifo (rx_push s x)" using r d by (auto simp: sim_fifo_def ring_ok_def rx_push_def Let_def)
  show "sim_rx (rx_push s x) = (if length (sim_rx s) < 511 then sim_rx s @ [x] else sim_rx s)"
  proof (cases "rx_count s = 511")
    case True
    then show ?thesis using c d by (simp add: rx_push_def sim_rx_def Let_def)
  next
    case False
    then have l: "rx_count s < 511" using c(1) by simp
    then have p: "rx_push s x = s\<lparr>rx := (rx s)(rx_head s := x), rx_head := (rx_head s + 1) mod 512\<rparr>"
      using c(4) d by (simp add: rx_push_def Let_def)
    have "rx_count (rx_push s x) = Suc (rx_count s)"
      using r l by (auto simp: p rx_count_def ring_ok_def ring_next split: if_splits)
    then show ?thesis
      using l ring_list_push [of "rx_count s" 512 "rx s" "rx_tail s" x] c(2) by (simp add: sim_rx_def p)
  qed
qed

lemma sim_rx_pop:
  assumes "sim_fifo s"
  shows "sim_fifo (snd (sim_drx s))" and "sim_rx (snd (sim_drx s)) = tl (sim_rx s)" and "sim_rx s \<noteq> [] \<Longrightarrow> fst (sim_drx s) = hd (sim_rx s)"
proof -
  have r: "ring_ok s" and d: "\<not> defer_resp s" using assms by (auto simp: sim_fifo_def)
  note c = rx_count_cases [OF r]
  show "sim_fifo (snd (sim_drx s))" using r d by (auto simp: sim_drx_eq rx_pop_def sim_fifo_def ring_ok_def)
  have "sim_rx (snd (sim_drx s)) = tl (sim_rx s) \<and> (sim_rx s \<noteq> [] \<longrightarrow> fst (sim_drx s) = hd (sim_rx s))"
  proof (cases "rx_count s")
    case 0
    then show ?thesis
      using c(3) by (simp add: sim_drx_eq rx_pop_def sim_rx_def)
  next
    case (Suc n)
    then have p: "rx_pop s = (rx s (rx_tail s), s\<lparr>rx_tail := (rx_tail s + 1) mod 512\<rparr>)" using c(3) by (simp add: rx_pop_def)
    have "rx_count (s\<lparr>rx_tail := (rx_tail s + 1) mod 512\<rparr>) = n"
      using r Suc by (auto simp: rx_count_def ring_ok_def ring_next split: if_splits)
    then show ?thesis
      using Suc ring_list_pop [of "rx_tail s" 512 "rx s" n] r by (simp add: sim_drx_eq p sim_rx_def ring_ok_def)
  qed
  then show "sim_rx (snd (sim_drx s)) = tl (sim_rx s)" "sim_rx s \<noteq> [] \<Longrightarrow> fst (sim_drx s) = hd (sim_rx s)" by simp_all
qed

text \<open>The receive ring, filled by the card and emptied through DRX, is a bounded queue of 511 bytes.\<close>

interpretation sim_q: bounded_fifo 511 sim_rx sim_fifo rx_push sim_drx
proof
  show "length (sim_rx s) \<le> 511" if "sim_fifo s" for s
    using rx_count_cases(1) [of s] that by (simp add: sim_rx_def sim_fifo_def)
qed (rule sim_rx_push sim_rx_pop; assumption)+

lemma resp_fire_rx:
  assumes "ring_ok s" and "length (sim_rx s) + length (pend s) \<le> 511"
  shows "sim_fifo (resp_fire s)" and "sim_rx (resp_fire s) = sim_rx s @ pend s"
proof -
  let ?s = "s\<lparr>defer_resp := False\<rparr>"
  have f: "sim_fifo ?s" and e: "sim_rx ?s = sim_rx s" using assms(1) by (simp_all add: sim_fifo_def ring_ok_def sim_rx_def rx_count_def)
  have k: "sim_fifo (t\<lparr>pend := [], defer_resp := False\<rparr>) = ring_ok t" "sim_rx (t\<lparr>pend := [], defer_resp := False\<rparr>) = sim_rx t" for t
    by (simp_all add: sim_fifo_def ring_ok_def sim_rx_def rx_count_def)
  show "sim_fifo (resp_fire s)"
    using sim_q.finv_push_all [OF f] by (simp add: resp_fire_def rx_push_n_def k) (simp add: sim_fifo_def)
  show "sim_rx (resp_fire s) = sim_rx s @ pend s"
    using sim_q.content_push_fits [OF f, of "pend s"] assms(2) by (simp add: resp_fire_def rx_push_n_def k e)
qed

lemma deliver_atr_keeps:
  assumes "\<not> defer_resp s"
  shows "powered (deliver_atr now s) = powered s" "pend (deliver_atr now s) = pend s" "\<not> defer_resp (deliver_atr now s)"
proof -
  have "powered (rx_push_n s bs) = powered s \<and> pend (rx_push_n s bs) = pend s \<and> \<not> defer_resp (rx_push_n s bs)" for bs
    using assms by (induction bs arbitrary: s) (simp_all add: rx_push_n_def rx_push_def Let_def)
  then show "powered (deliver_atr now s) = powered s" "pend (deliver_atr now s) = pend s" "\<not> defer_resp (deliver_atr now s)"
    using assms by (simp_all add: deliver_atr_def raise_rx_irq_def update_irq_def refresh_it_rx_def Let_def)
qed

lemma deliver_atr_rx:
  assumes "sim_fifo s" and "powered s" and "sim_rx s = []"
  shows "sim_fifo (deliver_atr now s)" and "sim_rx (deliver_atr now s) = SIM_ATR"
proof -
  have l: "length SIM_ATR \<le> 511" by (simp add: SIM_ATR_def)
  show "sim_fifo (deliver_atr now s)" "sim_rx (deliver_atr now s) = SIM_ATR"
    using sim_q.finv_push_all [OF assms(1), of SIM_ATR] sim_q.content_push_fits [OF assms(1), of SIM_ATR] l assms
    by (simp_all add: deliver_atr_def raise_rx_irq_def rx_push_n_def) (simp_all add: sim_fifo_def)
qed

text \<open>C25. The answer reaches the driver whole and in order: when the timer of a delayed answer fires on a reachable
  interface and the ring has room for it, reads of the receive register DRX return the bytes the ring held, then the
  bytes of the answer.\<close>

theorem sim_answer_in_order:
  assumes "reaches sim_ok sim_step (calypso_sim_new irq cfg us) s" and "sim_ok s (SimResp now)"
    and "length (sim_rx s) + length (pend s) \<le> 511"
  shows "pops sim_drx (length (sim_rx s) + length (pend s)) (sim_step s (SimResp now)) = sim_rx s @ pend s"
proof -
  let ?s = "s\<lparr>resp_timer := None\<rparr>"
  have "ring_ok s" using sim_dev.reachable_invar [OF assms(1)] by (simp add: sim_inv_def)
  then have "ring_ok ?s" "sim_rx ?s = sim_rx s" by (simp_all add: ring_ok_def sim_rx_def rx_count_def)
  then have "sim_fifo (resp_fire ?s)" "sim_rx (resp_fire ?s) = sim_rx s @ pend s" using resp_fire_rx [of ?s] assms(3) by simp_all
  then show ?thesis using sim_q.pops_content [of "resp_fire ?s" "length (sim_rx s) + length (pend s)"] by simp
qed

definition sim_answering :: "sim option" where
  "sim_answering = run sim_ok sim_step (calypso_sim_new True None 100)
     (SimWrite sim_tick 0x00 8 # map (SimWrite sim_tick 0x0C) [0xA0, 0xA4, 0x00, 0x00, 0x02, 0x6F, 0x07])"

lemma sim_answering_state:
  obtains s where "sim_answering = Some s" and "reaches sim_ok sim_step (calypso_sim_new True None 100) s"
    and "sim_rx s = SIM_ATR" and "pend s = [0xA4, 0x9F, 15]" and "powered s" and "due (resp_timer s) 1000000000"
proof -
  have "map_option (\<lambda>s. (sim_rx s, pend s, powered s, due (resp_timer s) 1000000000)) sim_answering = Some (SIM_ATR, [0xA4, 0x9F, 15], True, True)"
    by code_simp
  then obtain s where s: "sim_answering = Some s" "sim_rx s = SIM_ATR" "pend s = [0xA4, 0x9F, 15]" "powered s" "due (resp_timer s) 1000000000"
    by auto
  moreover from s(1) have "reaches sim_ok sim_step (calypso_sim_new True None 100) s" unfolding sim_answering_def by (rule run_reaches)
  ultimately show ?thesis using that by blast
qed

theorem sim_answer_in_order_witness:
  "pops sim_drx (length SIM_ATR + 3) (sim_step (the sim_answering) (SimResp 1000000000)) = SIM_ATR @ [0xA4, 0x9F, 15]"
proof (rule sim_answering_state)
  fix s assume s: "sim_answering = Some s" "reaches sim_ok sim_step (calypso_sim_new True None 100) s"
    "sim_rx s = SIM_ATR" "pend s = [0xA4, 0x9F, 15]" "due (resp_timer s) 1000000000"
  have "length SIM_ATR + 3 \<le> 511" by (simp add: SIM_ATR_def)
  then show ?thesis using sim_answer_in_order [OF s(2), of 1000000000] s(3-5) by (simp add: s(1) option.sel numeral_3_eq_3 del: pops.simps)
qed

text \<open>C40. A reset of the card does not cancel a delayed answer: the answer to a command given before the reset is
  delivered behind the answer to reset, where the driver expects nothing more.\<close>

theorem sim_reset_leaks_response:
  assumes "reaches sim_ok sim_step (calypso_sim_new irq cfg us) s" and "powered s" and "bit v CMD_CARDRST" and "\<not> bit v CMD_STOP"
  shows "sim_rx (resp_fire (sim_step s (SimWrite clk 0x00 v))) = SIM_ATR @ pend s"
proof -
  have d: "\<not> defer_resp s" using sim_dev.reachable_invar [OF assms(1)] by (simp add: sim_inv_def)
  let ?r = "\<lambda>t. t\<lparr>apdu := [], apdu_expected := 0, resp := [], rx_head := 0, rx_tail := 0, selected_df := 0x3F00, selected_ef := 0x3F00\<rparr>"
  define t where "t = (let s0 = s\<lparr>cmd := v\<rparr> in if bit v CMD_START then deliver_atr (clk 0) (s0\<lparr>powered := True\<rparr>) else s0)"
  have t: "powered t" "pend t = pend s" "\<not> defer_resp t" using assms(2) d by (auto simp: t_def deliver_atr_keeps Let_def)
  have w: "sim_step s (SimWrite clk 0x00 v) = deliver_atr (clk 1) (?r t)"
    using assms(3,4) t(1) unfolding t_def
    by (cases "bit v CMD_START") (simp_all add: calypso_sim_reg_write_def sim_write_cmd_def Let_def)
  have f: "sim_fifo (?r t)" "sim_rx (?r t) = []" using t by (simp_all add: sim_fifo_def ring_ok_def sim_rx_def rx_count_def)
  have "length (pend s) \<le> 277" using sim_dev.reachable_invar [OF assms(1)] by (simp add: sim_inv_def card_ok_def)
  moreover have "length SIM_ATR \<le> 234" by (simp add: SIM_ATR_def)
  ultimately show ?thesis
    unfolding w using resp_fire_rx [of "deliver_atr (clk 1) (?r t)"] deliver_atr_rx [OF f(1)] f t deliver_atr_keeps [of "?r t" "clk 1"]
    by (simp add: sim_fifo_def)
qed


theorem sim_reset_leaks_response_witness:
  "sim_rx (resp_fire (sim_step (the sim_answering) (SimWrite sim_tick 0x00 1))) = SIM_ATR @ [0xA4, 0x9F, 15]"
proof (rule sim_answering_state)
  fix s assume s: "sim_answering = Some s" "reaches sim_ok sim_step (calypso_sim_new True None 100) s"
    "pend s = [0xA4, 0x9F, 15]" "powered s"
  show ?thesis using sim_reset_leaks_response [OF s(2,4), of 1 sim_tick] s(3) by (simp add: s(1) option.sel)
qed

end
