(* ===== verification/Trx_Clock.thy ===== *)
theory Trx_Clock
  imports Calypso_Prelude "HOL-Library.Signed_Division"
begin

text \<open>
  The frame clock of the transceiver, the first part of \<open>hw/arm/calypso/calypso_trx.c\<close>: the local frame
  number and its offset to the network, the pacing of the frame timer, and GSM time.

  Frame offsets and clock readings are integers: the differences of frame numbers and the nanoseconds of
  a session are far from the ends of \<open>int64_t\<close>. The record is extended by the theories of the API window
  and of the bridge; the operations take any extension.
\<close>

abbreviation (input) GSM_HYPERFRAME :: "'a::numeral" where "GSM_HYPERFRAME \<equiv> 2715648"
abbreviation (input) GSM_TDMA_NS :: int where "GSM_TDMA_NS \<equiv> 4615384"
abbreviation (input) FN_SYNC_TOLERANCE :: int where "FN_SYNC_TOLERANCE \<equiv> 16"
abbreviation (input) FN_SYNC_WINDOW :: nat where "FN_SYNC_WINDOW \<equiv> 5"

section \<open>The frame number\<close>

record trx_clock =
  tfn :: u32
  fn_offset :: int
  fn_offset_hist :: "int list"
  fn_offset_n :: u32
  fn_synced :: bool

definition calypso_trx_get_fn :: "'a trx_clock_scheme \<Rightarrow> u32" where
  "calypso_trx_get_fn s =
     (let f = (uint (tfn s) + fn_offset s) smod GSM_HYPERFRAME
      in word_of_int (if f < 0 then f + GSM_HYPERFRAME else f))"

text \<open>The largest offset of the last five synchronisation bursts counts: a late reading only lowers it.\<close>

definition calypso_trx_autosync_fn :: "u32 \<Rightarrow> 'a trx_clock_scheme \<Rightarrow> 'a trx_clock_scheme" where
  "calypso_trx_autosync_fn sch_fn s =
     (let raw = uint sch_fn - uint (tfn s);
          s1 = s\<lparr>fn_offset_hist := (fn_offset_hist s)[unat (fn_offset_n s) mod FN_SYNC_WINDOW := raw],
                 fn_offset_n := fn_offset_n s + 1\<rparr>;
          n = (if unat (fn_offset_n s1) < FN_SYNC_WINDOW then unat (fn_offset_n s1) else FN_SYNC_WINDOW);
          off = fold (\<lambda>i best. if fn_offset_hist s1 ! i > best then fn_offset_hist s1 ! i else best) [1..<n] (fn_offset_hist s1 ! 0);
          drift = \<bar>off - fn_offset s1\<bar>
      in if fn_synced s1 \<and> drift \<le> FN_SYNC_TOLERANCE then s1
         else s1\<lparr>fn_offset := off, fn_synced := True\<rparr>)"

section \<open>Pacing\<close>

text \<open>The strict grid of \<open>tdma_pacer\<close>: the first slot after now.\<close>

function pacer_grid :: "int \<Rightarrow> int \<Rightarrow> int" where
  "pacer_grid now target = (if target \<le> now then pacer_grid now (target + GSM_TDMA_NS) else target)"
  by pat_completeness auto
termination by (relation "measure (\<lambda>(now, target). nat (now - target + 1))") auto

declare pacer_grid.simps [simp del]

text \<open>
  The next deadline of the frame timer: \<open>target\<close> is the static variable of the function (0 before the
  first call), \<open>rattrapage\<close> the number of frames it may lag behind, from the environment.
\<close>

definition pacer_next :: "int \<Rightarrow> int \<Rightarrow> int \<Rightarrow> int" where
  "pacer_next rattrapage now target =
     (let t = (if target = 0 then now else target) + GSM_TDMA_NS
      in if rattrapage = 0 then pacer_grid now t
         else if t < now - rattrapage * GSM_TDMA_NS then now else t)"

section \<open>GSM time\<close>

text \<open>
  The request reference of an assignment: T1 modulo 32, T2 and T3 of the frame, packed into two octets
  as \<open>pont_reqref_corrigee\<close> does (first octet in the low byte).
\<close>

definition reqref_encode :: "u32 \<Rightarrow> u16" where
  "reqref_encode memo =
     (let t1p = ucast (memo div 1326 mod 32) :: u16;
          t2 = ucast (memo mod 26) :: u8;
          t3 = ucast (memo mod 51) :: u8;
          o8 = ucast (push_bit 3 t1p OR ucast (drop_bit 3 t3 AND 7)) :: u8;
          o9 = push_bit 5 (t3 AND 7) OR (t2 AND 0x1F)
      in ucast o8 OR push_bit 8 (ucast o9))"

text \<open>The frame number of T1, T2 and T3, as the A5 coprocessor and the terminal compute it.\<close>

definition gsm_time_fn :: "int \<Rightarrow> int \<Rightarrow> int \<Rightarrow> int" where
  "gsm_time_fn t1 t2 t3 = 51 * 26 * t1 + 51 * ((t3 - t2 + 26 * 3) mod 26) + t3"

lemma gsm_time_fn_inverse:
  assumes "0 \<le> n"
  shows "gsm_time_fn (n div 1326) (n mod 26) (n mod 51) = n"
proof -
  define q where "q = n div 1326"
  define r where "r = n mod 1326"
  have n: "n = 1326 * q + r" and r: "0 \<le> r" "r < 1326" by (simp_all add: q_def r_def)
  define a where "a = r div 51"
  define b where "b = r mod 51"
  have ab: "r = 51 * a + b" and b: "0 \<le> b" "b < 51" by (simp_all add: a_def b_def)
  then have a: "0 \<le> a" "a < 26" using r by (simp_all add: a_def)
  have t3: "n mod 51 = b" using b by (simp add: n ab mod_add_eq [symmetric])
  have "n mod 26 = (26 * (51 * q + 2 * a) + (b - a)) mod 26" by (rule arg_cong [where f = "\<lambda>x. x mod 26"]) (simp add: n ab)
  also have "\<dots> = (b - a) mod 26" by (rule mod_mult_self4)
  finally have t2: "n mod 26 = (b - a) mod 26" .
  then have "(n mod 51 - n mod 26 + 26 * 3) mod 26 = (b - (b - a) mod 26 + 26 * 3) mod 26" unfolding t2 t3 by simp
  also have "\<dots> = (b - (b - a) mod 26) mod 26" by (rule mod_mult_self2)
  also have "\<dots> = a mod 26" by (simp add: mod_diff_right_eq)
  finally show ?thesis using a t3 by (simp add: gsm_time_fn_def n ab q_def [symmetric])
qed


text \<open>What a terminal reads from the two octets of a request reference.\<close>

definition reqref_t1 :: "u16 \<Rightarrow> u8" where "reqref_t1 w = drop_bit 3 (ucast w) AND 0x1F"
definition reqref_t3 :: "u16 \<Rightarrow> u8" where
  "reqref_t3 w = push_bit 3 (ucast w AND 7) OR (drop_bit 5 (ucast (drop_bit 8 w)) AND 7)"
definition reqref_t2 :: "u16 \<Rightarrow> u8" where "reqref_t2 w = ucast (drop_bit 8 w) AND 0x1F"

lemma byte_pair:
  fixes a b :: u8
  shows "ucast (ucast a OR push_bit 8 (ucast b) :: u16) = a" and "ucast (drop_bit 8 (ucast a OR push_bit 8 (ucast b) :: u16)) = b"
  by (auto simp: word_eq_bits bit_simps dest: bit_imp_le_length)

lemma uint_ucast_small: "uint w < 2 ^ LENGTH('b) \<Longrightarrow> uint (ucast w :: 'b::len word) = uint w" for w :: "'a::len word"
  by (subst unsigned_ucast_eq) (simp add: take_bit_int_eq_self)

lemma unat_lt_uint: "uint w < int k \<Longrightarrow> unat w < k"
  using of_nat_less_iff [of "unat w" k, where 'a = int] by simp

lemma reqref_pack:
  fixes a :: u16 and t2 t3 :: u8
  assumes "unat a < 32" and "unat t2 < 32" and "unat t3 < 64"
  defines "w \<equiv> ucast (ucast (push_bit 3 a OR ucast (drop_bit 3 t3 AND 7)) :: u8) OR push_bit 8 (ucast (push_bit 5 (t3 AND 7) OR (t2 AND 0x1F)))"
  shows "reqref_t1 w = ucast a" and "reqref_t2 w = t2" and "reqref_t3 w = t3"
proof -
  have a: "n < 5" if "bit a n" for n using bit_above_lt [of a 5 n] assms(1) that by (simp add: not_le [symmetric]) blast
  have t2: "n < 5" if "bit t2 n" for n using bit_above_lt [of t2 5 n] assms(2) that by (simp add: not_le [symmetric]) blast
  have t3: "n < 6" if "bit t3 n" for n using bit_above_lt [of t3 6 n] assms(3) that by (simp add: not_le [symmetric]) blast
  show "reqref_t1 w = ucast a" unfolding w_def reqref_t1_def byte_pair mask_take_bit
    by (auto simp: word_eq_bits bit_simps dest: a)
  show "reqref_t2 w = t2" unfolding w_def reqref_t2_def byte_pair mask_take_bit
    by (auto simp: word_eq_bits bit_simps dest: t2)
  show "reqref_t3 w = t3" unfolding w_def reqref_t3_def byte_pair mask_take_bit
    by (auto simp: word_eq_bits bit_simps dest: t3)
qed

lemma reqref_encode_fields:
  "uint (reqref_t1 (reqref_encode f)) = uint f div 1326 mod 32" "uint (reqref_t2 (reqref_encode f)) = uint f mod 26"
  "uint (reqref_t3 (reqref_encode f)) = uint f mod 51"
proof -
  define x y z where "x = f div 1326 mod 32" and "y = f mod 26" and "z = f mod 51"
  have u: "uint x = uint f div 1326 mod 32" "uint y = uint f mod 26" "uint z = uint f mod 51"
    unfolding x_def y_def z_def by (simp_all only: uint_div uint_mod) simp_all
  then have m: "uint x < 32" "uint y < 26" "uint z < 51" by simp_all
  have c: "uint (ucast x :: u16) = uint x" "uint (ucast y :: u8) = uint y" "uint (ucast z :: u8) = uint z"
    using m by (simp_all add: uint_ucast_small)
  have "unat (ucast x :: u16) < 32" "unat (ucast y :: u8) < 32" "unat (ucast z :: u8) < 64"
    by (rule unat_lt_uint, unfold c, use m in linarith)+
  note p = reqref_pack [OF this]
  have "uint (ucast (ucast x :: u16) :: u8) = uint x" using c(1) m(1) uint_ucast_small [of "ucast x :: u16", where 'b = 8] by simp
  then have "uint (reqref_t1 (reqref_encode f)) = uint x" "uint (reqref_t2 (reqref_encode f)) = uint y" "uint (reqref_t3 (reqref_encode f)) = uint z"
    using p c unfolding reqref_encode_def Let_def x_def [symmetric] y_def [symmetric] z_def [symmetric] by simp_all
  then show "uint (reqref_t1 (reqref_encode f)) = uint f div 1326 mod 32" "uint (reqref_t2 (reqref_encode f)) = uint f mod 26"
    "uint (reqref_t3 (reqref_encode f)) = uint f mod 51" unfolding u by simp_all
qed

lemma reqref_frame:
  "gsm_time_fn (uint (reqref_t1 (reqref_encode f))) (uint (reqref_t2 (reqref_encode f))) (uint (reqref_t3 (reqref_encode f))) = uint f mod 42432"
proof -
  define n where "n = uint f"
  have "n mod 42432 = 1326 * (n div 1326 mod 32) + n mod 1326" using zmod_zmult2_eq [of 32 n 1326] by simp
  then have "n mod 42432 div 1326 = n div 1326 mod 32" by simp
  moreover have "n mod 42432 mod 26 = n mod 26" "n mod 42432 mod 51 = n mod 51" by (rule mod_mod_cancel, simp)+
  ultimately have "gsm_time_fn (n div 1326 mod 32) (n mod 26) (n mod 51) = n mod 42432"
    using gsm_time_fn_inverse [of "n mod 42432"] by (simp only: pos_mod_sign zero_less_numeral simp_thms)
  then show ?thesis unfolding reqref_encode_fields n_def .
qed

end
