(* ===== verification/Trx_Api.thy ===== *)
theory Trx_Api
  imports Trx_Clock
begin

text \<open>
  The data of the API window of \<open>hw/arm/calypso/calypso_trx.c\<close> on the ARM side: the RAM shared with the DSP,
  the ring of burst numbers, the queue of access attempts, and the correction of the request reference.

  \<open>api_ram\<close> is the array of 32768 words; the host is little-endian. What the firmware keeps in its symbol
  \<open>last_rach\<close> is an argument (0 when the symbol or the firmware file is missing), as is the switch
  MONTANT_REQREF.
\<close>

abbreviation (input) CALYPSO_API_SIZE :: nat where "CALYPSO_API_SIZE \<equiv> 0x10000"
abbreviation (input) API_NDB :: nat where "API_NDB \<equiv> 0x01A8"
abbreviation (input) NDB_A_CD :: nat where "NDB_A_CD \<equiv> 0x1FC"
abbreviation (input) NDB_D_RACH :: nat where "NDB_D_RACH \<equiv> 0x2CC"
abbreviation (input) NDB_D_DSP_PAGE :: nat where "NDB_D_DSP_PAGE \<equiv> 0x000"
abbreviation (input) API_BL_STATUS :: nat where "API_BL_STATUS \<equiv> 0x0FFE"
abbreviation (input) API_VERSION :: nat where "API_VERSION \<equiv> 0x01B4"
abbreviation (input) API_VERSION2 :: nat where "API_VERSION2 \<equiv> 0x01B6"
abbreviation (input) BL_STATUS_BOOT :: u16 where "BL_STATUS_BOOT \<equiv> 1"
abbreviation (input) BL_STATUS_READY :: u16 where "BL_STATUS_READY \<equiv> 2"
abbreviation (input) API_VERSION_VALUE :: u16 where "API_VERSION_VALUE \<equiv> 0x3606"
abbreviation (input) BOOT_POLLS_BEFORE_BOOT :: nat where "BOOT_POLLS_BEFORE_BOOT \<equiv> 3"
abbreviation (input) ALLC_DSP_TASK :: u16 where "ALLC_DSP_TASK \<equiv> 24"

definition API_W_PAGE :: "bool \<Rightarrow> nat" where "API_W_PAGE p = (if p then 0x0028 else 0x0000)"
definition API_R_PAGE :: "bool \<Rightarrow> nat" where "API_R_PAGE p = (if p then 0x0078 else 0x0050)"

abbreviation (input) WP_D_BURST_D :: nat where "WP_D_BURST_D \<equiv> 0x02"
abbreviation (input) WP_D_TASK_U :: nat where "WP_D_TASK_U \<equiv> 0x04"
abbreviation (input) WP_D_TASK_RA :: nat where "WP_D_TASK_RA \<equiv> 0x0E"
abbreviation (input) RP_D_TASK_D :: nat where "RP_D_TASK_D \<equiv> 0x00"
abbreviation (input) RP_D_BURST_D :: nat where "RP_D_BURST_D \<equiv> 0x02"

section \<open>State\<close>

record trx_api = trx_clock +
  api_ram :: "nat \<Rightarrow> u16"
  dsp_page :: u8
  bl_booted :: bool
  bl_polls :: u32
  bl_lu_fn :: u32
  burst_ring :: "u8 list"
  burst_w :: u32
  burst_r :: u32
  burst_cur :: u16
  burst_last_fn :: u32
  rach_ra :: u8
  rach_ra_vue :: bool
  rach_fn :: "u8 \<Rightarrow> u32"
  rach_file :: "u8 list"
  rach_file_w :: u32
  rach_file_r :: u32

definition api_byte :: "'a trx_api_scheme \<Rightarrow> nat \<Rightarrow> u8" where
  "api_byte s off = (if even off then ucast (api_ram s (off div 2)) else ucast (drop_bit 8 (api_ram s (off div 2))))"

definition api_put :: "nat \<Rightarrow> u16 \<Rightarrow> 'a trx_api_scheme \<Rightarrow> 'a trx_api_scheme" where
  "api_put off v s = s\<lparr>api_ram := (api_ram s)(off div 2 := v)\<rparr>"

section \<open>Access attempts\<close>

text \<open>A write of \<open>d_rach\<close> queues the access reference; a full queue drops its oldest entry.\<close>

definition rach_written :: "u8 \<Rightarrow> 'a trx_api_scheme \<Rightarrow> 'a trx_api_scheme" where
  "rach_written ra s =
     (let s1 = (if rach_file_w s - rach_file_r s \<ge> 8 then s\<lparr>rach_file_r := rach_file_r s + 1\<rparr> else s)
      in s1\<lparr>rach_file := (rach_file s1)[unat (rach_file_w s1) mod 8 := ra], rach_file_w := rach_file_w s1 + 1\<rparr>)"

definition calypso_trx_rach_conf :: "u32 \<Rightarrow> 'a trx_api_scheme \<Rightarrow> 'a trx_api_scheme" where
  "calypso_trx_rach_conf f s =
     (if f = 0 \<or> rach_file_r s = rach_file_w s then s
      else let ra = rach_file s ! (unat (rach_file_r s) mod 8)
           in s\<lparr>rach_file_r := rach_file_r s + 1, rach_fn := (rach_fn s)(ra := f), rach_ra := ra, rach_ra_vue := True\<rparr>)"

text \<open>
  The word of \<open>a_cd\<close> with the request reference of an IMMEDIATE ASSIGNMENT: the frame remembered for its
  access reference, if there is one and the correction is on or changes nothing.
\<close>

definition pont_reqref_corrigee :: "bool \<Rightarrow> u32 \<Rightarrow> hwaddr \<Rightarrow> 'a trx_api_scheme \<Rightarrow> u16 option" where
  "pont_reqref_corrigee actif last_rach woff s =
     (if woff \<noteq> API_NDB + NDB_A_CD + 14 then None
      else let d = (\<lambda>i. api_byte s (API_NDB + NDB_A_CD + 6 + i))
           in if d 1 \<noteq> 0x06 \<or> d 2 \<noteq> 0x3f then None
              else let memo = rach_fn s (d 7);
                       memo = (if memo = 0 \<and> rach_ra_vue s \<and> d 7 = rach_ra s then last_rach else memo)
                   in if memo = 0 then None
                      else let out = reqref_encode memo
                           in if out \<noteq> ucast (d 8) OR push_bit 8 (ucast (d 9)) \<and> \<not> actif then None else Some out)"

section \<open>Bursts\<close>

text \<open>A write of \<open>d_burst_d\<close> in the frame \<open>wfn\<close> of the layer 1; a gap in the frames empties the ring.\<close>

definition burst_written :: "u32 \<Rightarrow> u16 \<Rightarrow> 'a trx_api_scheme \<Rightarrow> 'a trx_api_scheme" where
  "burst_written wfn v s =
     (let s1 = (if wfn \<noteq> burst_last_fn s + 1 then s\<lparr>burst_w := 0, burst_r := 0\<rparr> else s)
      in s1\<lparr>burst_last_fn := wfn, burst_ring := (burst_ring s1)[unat (burst_w s1 AND 7) := ucast (v AND 3)], burst_w := burst_w s1 + 1\<rparr>)"

end
