(* ===== verification/Trx.thy ===== *)
theory Trx
  imports Trx_Api Inth Timer Uart Tpu
begin

text \<open>
  The transceiver core, \<open>hw/arm/calypso/calypso_trx.c\<close>, with what it drives: the interrupt handler, the timer
  that counts lost frames, the two UARTs, the TPU sequencer, and the bridge to a DSP in another process.

  The state extends that of the API window. \<open>intc\<close>, \<open>timer1\<close>, \<open>modem\<close>, \<open>irda\<close> and \<open>seqr\<close> are the other
  devices; \<open>tregs\<close> is the register array the sequencer holds a pointer to. \<open>plog\<close> lists the messages
  exchanged with the DSP, \<open>l1log\<close> the calls into the layer 1 and the AFC relay. \<open>l1\<close> says that a layer 1
  is registered. \<open>halted\<close> is the flag of the CPU.

  A handler takes the configuration (the environment variables the code reads once) and a record of
  what it finds outside: clock readings, the outcome of a receive and of a send, the frame of the
  wall clock, the answers of the layer 1, the program counter and status of the CPU. Log output and the
  mailbox monitor are left out, and so is the SIM window, which passes to the SIM model.
\<close>

section \<open>State\<close>

text \<open>The messages of the bridge, by number: see \<open>calypso_dsp_pont.h\<close>.\<close>

abbreviation (input) PONT_RESET :: u32 where "PONT_RESET \<equiv> 3"
abbreviation (input) PONT_TICK :: u32 where "PONT_TICK \<equiv> 4"
abbreviation (input) PONT_DONE :: u32 where "PONT_DONE \<equiv> 5"
abbreviation (input) PONT_GO :: u32 where "PONT_GO \<equiv> 6"
abbreviation (input) PONT_DCCH :: u32 where "PONT_DCCH \<equiv> 7"
abbreviation (input) PONT_DONE_API_IRQ :: nat where "PONT_DONE_API_IRQ \<equiv> 0"
abbreviation (input) PONT_DONE_PHASE_A :: nat where "PONT_DONE_PHASE_A \<equiv> 4"
abbreviation (input) PONT_TICK_IRQ_TRAME :: nat where "PONT_TICK_IRQ_TRAME \<equiv> 16"
abbreviation (input) PONT_TICK_DEUX_PHASES :: nat where "PONT_TICK_DEUX_PHASES \<equiv> 17"

abbreviation (input) CALYPSO_IRQ_TPU_FRAME :: nat where "CALYPSO_IRQ_TPU_FRAME \<equiv> 4"
abbreviation (input) CALYPSO_IRQ_UART_MODEM :: nat where "CALYPSO_IRQ_UART_MODEM \<equiv> 7"
abbreviation (input) CALYPSO_IRQ_API :: nat where "CALYPSO_IRQ_API \<equiv> 15"
abbreviation (input) CALYPSO_IRQ_UART_IRDA :: nat where "CALYPSO_IRQ_UART_IRDA \<equiv> 18"
abbreviation (input) FRAME_IRQ_PULSE_NS :: int where "FRAME_IRQ_PULSE_NS \<equiv> 1000000"

abbreviation (input) TPU_CTRL :: nat where "TPU_CTRL \<equiv> 0x00"
abbreviation (input) TPU_INT_CTRL :: nat where "TPU_INT_CTRL \<equiv> 0x02"
abbreviation (input) TPU_IT_DSP_PG :: nat where "TPU_IT_DSP_PG \<equiv> 0x20"
abbreviation (input) TPU_CTRL_EN :: nat where "TPU_CTRL_EN \<equiv> 2"
abbreviation (input) TPU_CTRL_DSP_EN :: nat where "TPU_CTRL_DSP_EN \<equiv> 4"
abbreviation (input) TPU_CTRL_IDLE :: nat where "TPU_CTRL_IDLE \<equiv> 8"
abbreviation (input) ICTRL_MCU_FRAME :: nat where "ICTRL_MCU_FRAME \<equiv> 0"
abbreviation (input) ICTRL_DSP_FRAME :: nat where "ICTRL_DSP_FRAME \<equiv> 2"

datatype pont_ev = PSent u32 u32 u32 u32 | PRecv u32 u32

datatype l1_ev = L1FrameTick | L1Burst u16 | L1Rach u16 u32 | L1Page u16 | L1Write hwaddr u16 | AfcDac u16

datatype pont_rx = RxNone | RxLost | RxMsg u32 u32

record trx = trx_api +
  pont :: bool
  pont_fd :: bool
  pont_pending :: bool
  pont_timeouts :: u32
  pont_frames :: u64
  pont_api_irqs :: u64
  tick_phase :: nat
  deux_phases :: bool
  phase_a_recue :: bool
  go_inutile :: bool
  eoi_cible :: u64
  eoi_attentes :: u32
  eoi_timeouts :: u32
  eoi_longues :: u32
  dcch_a_dire :: bool
  dcch_tn :: u8
  dcch_ss :: u8
  dcch_genre :: int
  plog :: "pont_ev list"
  tregs :: "nat \<Rightarrow> u16"
  tram :: "nat \<Rightarrow> u16"
  tsp_regs :: "nat \<Rightarrow> u16"
  ulpd_regs :: "nat \<Rightarrow> u16"
  ulpd_counter :: u32
  tdma_running :: bool
  tdma_timer :: "int option"
  frame_irq_timer :: "int option"
  kick_timer :: "int option"
  pont_boot_timer :: "int option"
  pacer_target :: int
  dsp_line :: bool
  halted :: bool
  l1 :: bool
  l1log :: "l1_ev list"
  intc :: inth
  timer1 :: timer
  modem :: "uart option"
  irda :: "uart option"
  seqr :: tpu

record trx_cfg =
  lockstep :: bool
  arm_first_off :: bool
  arm_lock :: bool
  boot_poll :: bool
  reqref_actif :: bool
  retry_env :: "int option"
  kick_env :: "int option"
  rattrapage :: int
  afc_linked :: bool

record trx_env =
  rt :: int
  vt :: int
  vm_running :: bool
  rx_msg :: pont_rx
  tx_ok :: "u32 \<Rightarrow> bool"
  wall :: u32
  l1_read :: "hwaddr \<Rightarrow> u16 option"
  l1_si :: bool
  l1_fn :: "u32 option"
  last_rach :: u32
  cpu :: "(u64 \<times> u32) option"
  rf_shm :: "(nat \<Rightarrow> rf_prog) option"

section \<open>Configuration\<close>

definition cpu_kick_ns :: "trx_cfg \<Rightarrow> int" where
  "cpu_kick_ns c = (let ns = (case kick_env c of Some v \<Rightarrow> v | None \<Rightarrow> 0) in if ns < 10000 \<or> ns > 100000000 then 5000000 else ns)"

definition pont_retry_div :: "trx_cfg \<Rightarrow> int" where
  "pont_retry_div c = (let d = (case retry_env c of Some v \<Rightarrow> v | None \<Rightarrow> 0) in if d < 1 \<or> d > 8192 then 16 else d)"

definition PONT_RETRY_NS :: "trx_cfg \<Rightarrow> int" where
  "PONT_RETRY_NS c = GSM_TDMA_NS div pont_retry_div c"

definition PONT_ATTENTES_MAX :: "trx_cfg \<Rightarrow> u32" where
  "PONT_ATTENTES_MAX c = word_of_int (256 * pont_retry_div c div 16)"

definition arm_first :: "trx_cfg \<Rightarrow> bool" where
  "arm_first c \<longleftrightarrow> lockstep c \<and> \<not> arm_first_off c"

section \<open>Wiring\<close>

definition irq_raise :: "nat \<Rightarrow> trx \<Rightarrow> trx" where
  "irq_raise n s = s\<lparr>intc := calypso_inth_set_irq (intc s) n True\<rparr>"

definition irq_lower :: "nat \<Rightarrow> trx \<Rightarrow> trx" where
  "irq_lower n s = s\<lparr>intc := calypso_inth_set_irq (intc s) n False\<rparr>"

text \<open>The changes of a UART's interrupt line, in the order it drove them, reach its input of the interrupt handler.\<close>

definition uart_wire :: "nat \<Rightarrow> uart \<Rightarrow> uart \<Rightarrow> inth \<Rightarrow> inth" where
  "uart_wire n old new i =
     fold (\<lambda>e i. case e of UIrq b \<Rightarrow> calypso_inth_set_irq i n b | _ \<Rightarrow> i) (drop (length (trace old)) (trace new)) i"

definition uart_serve :: "uart \<Rightarrow> uart" where
  "uart_serve u = calypso_uart_kick_rx (calypso_uart_poll_backend u)"

definition serve_modem :: "trx \<Rightarrow> trx" where
  "serve_modem s =
     (case modem s of None \<Rightarrow> s
      | Some u \<Rightarrow> s\<lparr>modem := Some (uart_serve u), intc := uart_wire CALYPSO_IRQ_UART_MODEM u (uart_serve u) (intc s)\<rparr>)"

definition serve_irda :: "trx \<Rightarrow> trx" where
  "serve_irda s =
     (case irda s of None \<Rightarrow> s
      | Some u \<Rightarrow> s\<lparr>irda := Some (uart_serve u), intc := uart_wire CALYPSO_IRQ_UART_IRDA u (uart_serve u) (intc s)\<rparr>)"

definition serve_uarts :: "trx \<Rightarrow> trx" where
  "serve_uarts s = serve_irda (serve_modem s)"

text \<open>The sequencer writes through its pointer into the register array.\<close>

definition seq_on_regs :: "(tpu \<Rightarrow> tpu) \<Rightarrow> trx \<Rightarrow> trx" where
  "seq_on_regs f s =
     (let q = f ((seqr s)\<lparr>tpu_regs := map_option (\<lambda>_. tregs s) (tpu_regs (seqr s))\<rparr>)
      in s\<lparr>seqr := q, tregs := (case tpu_regs q of Some r \<Rightarrow> r | None \<Rightarrow> tregs s)\<rparr>)"

definition l1_call :: "l1_ev \<Rightarrow> trx \<Rightarrow> trx" where
  "l1_call e s = (if l1 s then s\<lparr>l1log := l1log s @ [e]\<rparr> else s)"

text \<open>The TPU frame interrupt: the lost-frame counter is latched, the line goes up for a millisecond.\<close>

definition frame_irq :: "trx_env \<Rightarrow> trx \<Rightarrow> trx" where
  "frame_irq e s =
     (let s1 = irq_raise CALYPSO_IRQ_TPU_FRAME (s\<lparr>timer1 := calypso_timer_lost_frame_tick (timer1 s) (tfn s)\<rparr>)
      in s1\<lparr>frame_irq_timer := Some (vt e + FRAME_IRQ_PULSE_NS)\<rparr>)"

definition tdma_later :: "trx_cfg \<Rightarrow> trx_env \<Rightarrow> trx \<Rightarrow> trx" where
  "tdma_later c e s = s\<lparr>tdma_timer := Some (rt e + PONT_RETRY_NS c)\<rparr>"

definition tdma_pacer :: "trx_cfg \<Rightarrow> trx_env \<Rightarrow> trx \<Rightarrow> trx" where
  "tdma_pacer c e s =
     (let t = pacer_next (rattrapage c) (rt e) (pacer_target s)
      in s\<lparr>pacer_target := t, tdma_timer := Some t\<rparr>)"

section \<open>The bridge\<close>

definition pont_send :: "trx_env \<Rightarrow> u32 \<Rightarrow> u32 \<Rightarrow> u32 \<Rightarrow> u32 \<Rightarrow> trx \<Rightarrow> bool \<times> trx" where
  "pont_send e ty a b d s =
     (if \<not> pont_fd s \<or> \<not> tx_ok e ty then (False, s) else (True, s\<lparr>plog := plog s @ [PSent ty a b d]\<rparr>))"

text \<open>A poll without a descriptor finds nothing; a short read closes the connection.\<close>

definition pont_recv :: "trx_env \<Rightarrow> trx \<Rightarrow> (u32 \<times> u32) option \<times> trx" where
  "pont_recv e s =
     (if \<not> pont_fd s then (None, s)
      else case rx_msg e of
             RxNone \<Rightarrow> (None, s)
           | RxLost \<Rightarrow> (None, s\<lparr>pont_fd := False\<rparr>)
           | RxMsg ty a \<Rightarrow> (Some (ty, a), s\<lparr>plog := plog s @ [PRecv ty a]\<rparr>))"

text \<open>The flags of a message \<open>PONT_DONE\<close>, if that is what was received.\<close>

definition done_flags :: "(u32 \<times> u32) option \<Rightarrow> u32 option" where
  "done_flags m = (case m of Some (ty, a) \<Rightarrow> (if ty = PONT_DONE then Some a else None) | None \<Rightarrow> None)"

definition pont_collect :: "u32 \<Rightarrow> trx \<Rightarrow> trx" where
  "pont_collect a s =
     (let s1 = s\<lparr>pont_pending := False, pont_frames := pont_frames s + 1\<rparr>
      in if bit a PONT_DONE_API_IRQ
         then irq_raise CALYPSO_IRQ_API (s1\<lparr>pont_api_irqs := pont_api_irqs s1 + 1\<rparr>) else s1)"

definition pont_tick_b :: "trx \<Rightarrow> u32 \<times> trx" where
  "pont_tick_b s =
     (let b = ucast (dsp_page s);
          arme = bit (tregs s (TPU_CTRL div 2)) TPU_CTRL_DSP_EN \<and> \<not> bit (tregs s (TPU_INT_CTRL div 2)) ICTRL_DSP_FRAME
      in if arme
         then (set_bit PONT_TICK_IRQ_TRAME b,
               s\<lparr>tregs := (tregs s)(TPU_CTRL div 2 := unset_bit TPU_CTRL_DSP_EN (tregs s (TPU_CTRL div 2)))\<rparr>)
         else (b, s))"

text \<open>The part of \<open>pont_echange\<close> that sends: the channel to announce, then the frame.\<close>

definition pont_tick_out :: "trx_env \<Rightarrow> trx \<Rightarrow> trx" where
  "pont_tick_out e s =
     (let (b, s1) = pont_tick_b s;
          b = (if deux_phases s1 then set_bit PONT_TICK_DEUX_PHASES b else b);
          s2 = (if dcch_a_dire s1
                then snd (pont_send e PONT_DCCH (ucast (dcch_tn s1)) (word_of_int (dcch_genre s1)) (ucast (dcch_ss s1)) (s1\<lparr>dcch_a_dire := False\<rparr>))
                else s1);
          (ok, s3) = pont_send e PONT_TICK (tfn s2) b (ucast (tregs s2 (TPU_OFFSET div 2))) s2
      in if ok then s3\<lparr>pont_pending := True\<rparr> else s3)"

definition pont_echange :: "trx_env \<Rightarrow> trx \<Rightarrow> trx" where
  "pont_echange e s =
     (if \<not> pont_fd s then s
      else if \<not> pont_pending s then pont_tick_out e s
      else let (m, s1) = pont_recv e s
           in case done_flags m of
                Some a \<Rightarrow> pont_tick_out e (pont_collect a s1)
              | None \<Rightarrow> if pont_fd s1 then s1\<lparr>pont_timeouts := pont_timeouts s1 + 1\<rparr> else s1)"

definition pont_boot_pas :: "trx_env \<Rightarrow> trx \<Rightarrow> trx" where
  "pont_boot_pas e s =
     (if \<not> pont_fd s then s
      else let s1 = (if \<not> pont_pending s then pont_echange e s else s)
           in if \<not> pont_pending s1 then s1
              else let (m, s2) = pont_recv e s1
                   in case done_flags m of Some a \<Rightarrow> pont_collect a s2 | None \<Rightarrow> s2)"

definition pont_boot_tick :: "trx_env \<Rightarrow> trx \<Rightarrow> trx" where
  "pont_boot_tick e s =
     (if tdma_running s then s
      else (if vm_running e then pont_echange e s else s)\<lparr>pont_boot_timer := Some (rt e + GSM_TDMA_NS)\<rparr>)"

definition calypso_trx_dcch :: "int \<Rightarrow> int \<Rightarrow> int \<Rightarrow> trx \<Rightarrow> trx" where
  "calypso_trx_dcch genre ss tn s =
     (if \<not> pont s then s
      else s\<lparr>dcch_genre := genre, dcch_ss := word_of_int ss, dcch_tn := word_of_int tn, dcch_a_dire := True\<rparr>)"

definition calypso_trx_dsp_reset_line :: "trx_env \<Rightarrow> bool \<Rightarrow> trx \<Rightarrow> trx" where
  "calypso_trx_dsp_reset_line e act s =
     (let s1 = (if pont s \<and> dsp_line s \<and> \<not> act then snd (pont_send e PONT_RESET 0 0 0 (api_put API_BL_STATUS 0 s)) else s)
      in s1\<lparr>dsp_line := act\<rparr>)"

section \<open>The frame tick\<close>

text \<open>The second phase of a frame, first half: the answer of the DSP's frame interrupt lets the ARM have its frame.\<close>

definition phase_a_collect :: "trx_env \<Rightarrow> trx \<Rightarrow> trx" where
  "phase_a_collect e s =
     (let (m, s1) = pont_recv e s
      in case done_flags m of
           None \<Rightarrow> s1
         | Some a \<Rightarrow> if bit a PONT_DONE_PHASE_A then s1\<lparr>phase_a_recue := True\<rparr>
                     else (pont_collect a s1)\<lparr>phase_a_recue := True, go_inutile := True\<rparr>)"

definition phase_a_step :: "trx_env \<Rightarrow> trx \<Rightarrow> trx" where
  "phase_a_step e s =
     (if phase_a_recue s then s
      else let s1 = phase_a_collect e s
           in if phase_a_recue s1
              then let eoi = calypso_inth_frame_eoi (Some (intc s1));
                       s2 = (if eoi_cible s1 < eoi then s1\<lparr>eoi_cible := eoi\<rparr> else s1)
                   in frame_irq e (s2\<lparr>eoi_cible := eoi_cible s2 + 1\<rparr>)
              else s1)"

text \<open>The ARM has finished its frame: it has acknowledged the interrupt, or the interrupt is masked.\<close>

definition l1_sync_fini :: "trx \<Rightarrow> bool" where
  "l1_sync_fini s \<longleftrightarrow> phase_a_recue s \<and>
     (calypso_inth_frame_eoi (Some (intc s)) \<ge> eoi_cible s \<or> calypso_inth_irq_masked (Some (intc s)) CALYPSO_IRQ_TPU_FRAME)"

definition arm_relance_dsp :: "trx \<Rightarrow> bool" where
  "arm_relance_dsp s \<longleftrightarrow> bl_lu_fn s \<noteq> 0 \<and> tfn s + 1 - bl_lu_fn s \<le> 4"

text \<open>The end of the second phase: a lost frame interrupt is made up for, the DSP may go on.\<close>

definition tick_go :: "trx_cfg \<Rightarrow> trx_env \<Rightarrow> bool \<Rightarrow> trx \<Rightarrow> trx" where
  "tick_go c e fini s =
     (let s1 = (if fini then s
                else let t = (if phase_a_recue s then s else frame_irq e s)
                     in t\<lparr>eoi_cible := calypso_inth_frame_eoi (Some (intc t)), eoi_timeouts := eoi_timeouts t + 1\<rparr>);
          s2 = s1\<lparr>tick_phase := 0\<rparr>;
          s3 = (if go_inutile s2 then s2 else snd (pont_send e PONT_GO (tfn s2) 0 0 s2))
      in tdma_pacer c e s3)"

definition tick_wait :: "trx_cfg \<Rightarrow> trx_env \<Rightarrow> trx \<Rightarrow> trx" where
  "tick_wait c e s =
     (let s1 = phase_a_step e s;
          fini = l1_sync_fini s1;
          m = PONT_ATTENTES_MAX c;
          n = eoi_attentes s1 + 1
      in if \<not> fini \<and> n \<ge> m \<and> n < m * 32 \<and> phase_a_recue s1
         then tdma_later c e (serve_uarts (s1\<lparr>eoi_longues := (if n = m then eoi_longues s1 + 1 else eoi_longues s1), eoi_attentes := n\<rparr>))
         else let s2 = (if fini then s1 else s1\<lparr>eoi_attentes := n\<rparr>)
              in if \<not> fini \<and> n < m then tdma_later c e (serve_uarts s2)
                 else if \<not> fini \<and> arm_lock c \<and> \<not> arm_relance_dsp s2 \<and> eoi_attentes s2 < m * 64
                 then tdma_later c e (s2\<lparr>eoi_attentes := eoi_attentes s2 + 1\<rparr>)
                 else tick_go c e fini s2)"

text \<open>The frame number: at the pace of the DSP in lock-step, else that of the wall clock.\<close>

definition tick_fn :: "trx_cfg \<Rightarrow> trx_env \<Rightarrow> trx \<Rightarrow> u32" where
  "tick_fn c e s =
     (if pont s \<and> pont_fd s \<and> lockstep c then (tfn s + 1) mod GSM_HYPERFRAME
      else (if wall e \<noteq> 0 then wall e else tfn s + 1) mod GSM_HYPERFRAME)"

text \<open>Before the bridge: the sequencer runs its frame and the UARTs are served.\<close>

definition tick_serve :: "trx_cfg \<Rightarrow> trx_env \<Rightarrow> trx \<Rightarrow> trx" where
  "tick_serve c e s =
     (let s1 = s\<lparr>tfn := tick_fn c e s\<rparr> in serve_uarts (seq_on_regs (calypso_tpu_sequencer_tick (rf_shm e) (tfn s1)) s1))"

text \<open>After it: the ARM gets its frame now, or with two phases once the DSP has answered.\<close>

definition tick_end :: "trx_cfg \<Rightarrow> trx_env \<Rightarrow> trx \<Rightarrow> trx" where
  "tick_end c e s =
     (if pont s \<and> pont_fd s \<and> arm_first c \<and> pont_pending s
      then tdma_later c e (s\<lparr>eoi_attentes := 0, phase_a_recue := False, go_inutile := False, tick_phase := 1\<rparr>)
      else let s1 = (if pont_fd s then s
                     else s\<lparr>tregs := (tregs s)(TPU_CTRL div 2 := unset_bit TPU_CTRL_DSP_EN (tregs s (TPU_CTRL div 2)))\<rparr>)
           in tdma_pacer c e (frame_irq e s1))"

definition tick_frame :: "trx_cfg \<Rightarrow> trx_env \<Rightarrow> trx \<Rightarrow> trx" where
  "tick_frame c e s =
     (let s1 = tick_serve c e s
      in tick_end c e
        (if pont s1 then (pont_echange e (s1\<lparr>deux_phases := deux_phases s1 \<or> arm_first c\<rparr>))\<lparr>deux_phases := False\<rparr>
         else api_put (API_W_PAGE (dsp_page s1 \<noteq> 0) + WP_D_TASK_U) 0 (api_put (API_W_PAGE (dsp_page s1 \<noteq> 0) + WP_D_TASK_RA) 0 s1)))"

definition tdma_tick :: "trx_cfg \<Rightarrow> trx_env \<Rightarrow> trx \<Rightarrow> trx" where
  "tdma_tick c e s =
     (if \<not> vm_running e then s\<lparr>tdma_timer := Some (rt e + GSM_TDMA_NS)\<rparr>
      else if tick_phase s = 1 then tick_wait c e s
      else if pont s \<and> pont_fd s \<and> pont_pending s \<and> lockstep c
      then let (m, s1) = pont_recv e s
           in case done_flags m of
                Some a \<Rightarrow> tick_frame c e (pont_collect a s1)
              | None \<Rightarrow> tdma_later c e (serve_uarts s1)
      else tick_frame c e s)"

definition tdma_start :: "trx_env \<Rightarrow> trx \<Rightarrow> trx" where
  "tdma_start e s = s\<lparr>tdma_running := True, tfn := 0, tdma_timer := Some (rt e + GSM_TDMA_NS)\<rparr>"

definition calypso_trx_force_tick :: "trx_cfg \<Rightarrow> trx_env \<Rightarrow> u32 \<Rightarrow> trx \<Rightarrow> trx" where
  "calypso_trx_force_tick c e f s = tdma_tick c e (s\<lparr>tfn := f\<rparr>)"

text \<open>The end of the interrupt pulse; a CPU idling outside interrupt context is parked.\<close>

definition cpu_idle_park :: "trx_env \<Rightarrow> bool \<Rightarrow> bool" where
  "cpu_idle_park e h =
     (case cpu e of
        None \<Rightarrow> h
      | Some (pc, cpsr) \<Rightarrow>
          let mode = cpsr AND 0x1F
          in if pc < 0x00823000 \<or> pc \<ge> 0x00826000 \<or> bit cpsr 7 \<or> mode = 0x12 \<or> mode = 0x11 \<or> mode = 0x17 \<or> mode = 0x1B then h
             else True)"

definition frame_irq_lower :: "trx_env \<Rightarrow> trx \<Rightarrow> trx" where
  "frame_irq_lower e s =
     (let s1 = l1_call L1FrameTick (irq_lower CALYPSO_IRQ_TPU_FRAME s) in s1\<lparr>halted := cpu_idle_park e (halted s1)\<rparr>)"

definition cpu_kick :: "trx_cfg \<Rightarrow> trx_env \<Rightarrow> trx \<Rightarrow> trx" where
  "cpu_kick c e s = s\<lparr>kick_timer := Some (rt e + cpu_kick_ns c)\<rparr>"

section \<open>The API window\<close>

definition l1s_fn_of :: "trx_env \<Rightarrow> trx \<Rightarrow> u32" where
  "l1s_fn_of e s = (if l1 s then (case l1_fn e of Some f \<Rightarrow> f | None \<Rightarrow> calypso_trx_get_fn s) else calypso_trx_get_fn s)"

definition api_load :: "nat \<Rightarrow> hwaddr \<Rightarrow> trx \<Rightarrow> u64" where
  "api_load sz off s =
     (if sz = 2 then ucast (api_ram s (off div 2))
      else if sz = 4 then ucast (api_ram s (off div 2)) OR push_bit 16 (ucast (api_ram s (off div 2 + 1)))
      else ucast (api_byte s off))"

text \<open>The value the ARM gets from the RAM of a bridged DSP, with the request reference corrected.\<close>

definition api_pont_value :: "trx_cfg \<Rightarrow> trx_env \<Rightarrow> nat \<Rightarrow> hwaddr \<Rightarrow> trx \<Rightarrow> u64" where
  "api_pont_value c e sz off s =
     (let v = api_load sz off s;
          fix1 = pont_reqref_corrigee (reqref_actif c) (last_rach e) off s;
          fix2 = pont_reqref_corrigee (reqref_actif c) (last_rach e) (off + 2) s
      in if sz = 2 then (case fix1 of Some w \<Rightarrow> ucast w | None \<Rightarrow> v)
         else if sz = 4 then
           (let v1 = (case fix1 of Some w \<Rightarrow> (v AND 0xFFFF0000) OR ucast w | None \<Rightarrow> v)
            in case fix2 of Some w \<Rightarrow> (v1 AND 0x0000FFFF) OR push_bit 16 (ucast w) | None \<Rightarrow> v1)
         else v)"

definition api_read_pont :: "trx_cfg \<Rightarrow> trx_env \<Rightarrow> hwaddr \<Rightarrow> u64 \<Rightarrow> trx \<Rightarrow> u64 \<times> trx" where
  "api_read_pont c e off v s =
     (let s1 = (if off = API_BL_STATUS then s\<lparr>bl_lu_fn := tfn s + 1\<rparr> else s)
      in if off = API_BL_STATUS \<and> v \<noteq> 1 \<and> \<not> tdma_running s1 \<and> boot_poll c then
           (let s2 = s1\<lparr>bl_polls := bl_polls s1 + 1\<rparr>
            in if bl_polls s2 AND 31 = 0 then (let s3 = pont_boot_pas e s2 in (ucast (api_ram s3 (API_BL_STATUS div 2)), s3)) else (v, s2))
         else (v, s1))"

text \<open>Without a DSP, the layer 1 may override a word, and the task, burst and boot status words are emulated.\<close>

definition api_read_emul :: "trx_env \<Rightarrow> hwaddr \<Rightarrow> u64 \<Rightarrow> trx \<Rightarrow> u64 \<times> trx" where
  "api_read_emul e off v s =
     (let v1 = (if l1 s then (case l1_read e off of Some w \<Rightarrow> ucast w | None \<Rightarrow> v) else v);
          task = (off = API_R_PAGE False + RP_D_TASK_D \<or> off = API_R_PAGE True + RP_D_TASK_D);
          s1 = (if task then s\<lparr>burst_cur := ucast (burst_ring s ! unat (burst_r s AND 7)), burst_r := burst_r s + 1\<rparr> else s);
          v2 = (if task \<and> v1 = 0 \<and> l1 s \<and> l1_si e then ucast ALLC_DSP_TASK else v1);
          v3 = (if off = API_R_PAGE False + RP_D_BURST_D \<or> off = API_R_PAGE True + RP_D_BURST_D
                then ucast ((burst_cur s1 + 3) AND 3) else v2)
      in if off = API_BL_STATUS \<and> \<not> bl_booted s1 then
           (let s2 = s1\<lparr>bl_polls := bl_polls s1 + 1\<rparr>
            in if unat (bl_polls s2) > BOOT_POLLS_BEFORE_BOOT
               then (ucast BL_STATUS_BOOT,
                     (api_put API_VERSION2 0 (api_put API_VERSION API_VERSION_VALUE (api_put API_BL_STATUS BL_STATUS_BOOT s2)))\<lparr>bl_booted := True\<rparr>)
               else (v3, s2))
         else (v3, s1))"

definition api_read :: "trx_cfg \<Rightarrow> trx_env \<Rightarrow> nat \<Rightarrow> hwaddr \<Rightarrow> trx \<Rightarrow> u64 \<times> trx" where
  "api_read c e sz off s =
     (if off \<ge> CALYPSO_API_SIZE then (0, s)
      else let v = (if pont s then api_pont_value c e sz off s else api_load sz off s)
           in if sz \<noteq> 2 then (v, s)
              else if pont s then api_read_pont c e off v s
              else api_read_emul e off v s)"

definition api_store :: "nat \<Rightarrow> hwaddr \<Rightarrow> u64 \<Rightarrow> trx \<Rightarrow> trx" where
  "api_store sz off v s =
     (if sz = 2 then s\<lparr>api_ram := (api_ram s)(off div 2 := ucast v)\<rparr>
      else if sz = 4 then s\<lparr>api_ram := (api_ram s)(off div 2 := ucast v, off div 2 + 1 := ucast (drop_bit 16 v))\<rparr>
      else s\<lparr>api_ram := (api_ram s)(off div 2 :=
             (if even off then (api_ram s (off div 2) AND 0xFF00) OR (ucast v AND 0xFF)
              else (api_ram s (off div 2) AND 0x00FF) OR push_bit 8 (ucast v AND 0xFF)))\<rparr>)"

text \<open>The boot command: the emulated loader restarts or is ready; a ready loader gets its interrupt unmasked.\<close>

definition api_boot_written :: "u64 \<Rightarrow> trx \<Rightarrow> trx" where
  "api_boot_written v s =
     (if v = 0 \<and> \<not> pont s then s\<lparr>bl_booted := False, bl_polls := 0\<rparr>
      else if v = ucast BL_STATUS_READY then
        (let s1 = (if pont s then s else api_put API_VERSION2 0 (api_put API_VERSION API_VERSION_VALUE s));
             (m, i1) = calypso_inth_read (intc s1) 0x08;
             i2 = calypso_inth_write i1 0x08 (ucast (unset_bit CALYPSO_IRQ_API (ucast m :: u16)));
             s2 = s1\<lparr>intc := i2\<rparr>
         in if pont s2 then s2 else api_put API_NDB 0 s2)
      else s)"

definition api_write :: "trx_cfg \<Rightarrow> trx_env \<Rightarrow> nat \<Rightarrow> hwaddr \<Rightarrow> u64 \<Rightarrow> trx \<Rightarrow> trx" where
  "api_write c e sz off v s =
     (if off \<ge> CALYPSO_API_SIZE then s
      else let w = ucast v :: u16;
               s1 = api_store sz off v s;
               s2 = (if (off = 0x001E \<or> off = 0x0046) \<and> sz = 2 \<and> afc_linked c then s1\<lparr>l1log := l1log s1 @ [AfcDac w]\<rparr> else s1);
               s3 = (if sz = 2 then l1_call (L1Write off w) s2 else s2);
               s4 = (if sz = 2 \<and> (off = API_W_PAGE False + WP_D_BURST_D \<or> off = API_W_PAGE True + WP_D_BURST_D)
                     then l1_call (L1Burst w) (burst_written (l1s_fn_of e s3) w s3) else s3);
               s5 = (if off = API_NDB + NDB_D_RACH \<and> v \<noteq> 0 \<and> (sz = 2 \<or> sz = 4)
                     then (let t = rach_written (ucast (drop_bit 8 v)) s4 in l1_call (L1Rach w (tfn t)) t) else s4);
               s6 = (if off = API_NDB + NDB_D_DSP_PAGE \<and> sz = 2 then l1_call (L1Page w) (s5\<lparr>dsp_page := ucast (v AND 1)\<rparr>) else s5)
           in if off = API_BL_STATUS then api_boot_written v s6 else s6)"

section \<open>The TPU, TSP and ULPD windows\<close>

definition tpu_done :: "trx_env \<Rightarrow> trx \<Rightarrow> trx" where
  "tpu_done e s =
     (let s1 = s\<lparr>tregs := (tregs s)(TPU_CTRL div 2 := unset_bit TPU_CTRL_EN (tregs s (TPU_CTRL div 2)))\<rparr>;
          q = calypso_tpu_run_scenario (rf_shm e) (tram s1) (tfn s1) (Some (tregs s1)) (seqr s1)
      in irq_raise CALYPSO_IRQ_API (s1\<lparr>seqr := q, tregs := the (tpu_regs q)\<rparr>))"

definition tpu_read :: "hwaddr \<Rightarrow> trx \<Rightarrow> u64" where
  "tpu_read off s =
     (if off = TPU_IT_DSP_PG then ucast (dsp_page s) else if off div 2 < 0x80 then ucast (tregs s (off div 2)) else 0)"

definition tpu_write :: "trx_env \<Rightarrow> hwaddr \<Rightarrow> u64 \<Rightarrow> trx \<Rightarrow> trx" where
  "tpu_write e off v s =
     (let s1 = (if off div 2 < 0x80 then s\<lparr>tregs := (tregs s)(off div 2 := ucast v)\<rparr> else s);
          s2 = (if off = TPU_CTRL \<and> bit v TPU_CTRL_EN then
                  (let t = tpu_done e (s1\<lparr>tregs := (tregs s1)(TPU_CTRL div 2 :=
                             unset_bit TPU_CTRL_EN (unset_bit TPU_CTRL_IDLE (tregs s1 (TPU_CTRL div 2))))\<rparr>)
                   in if \<not> tdma_running t \<and> \<not> bit (tregs t (TPU_INT_CTRL div 2)) ICTRL_MCU_FRAME then tdma_start e t else t)
                else s1);
          s3 = (if off = TPU_INT_CTRL \<and> \<not> bit v ICTRL_MCU_FRAME \<and> \<not> tdma_running s2 then tdma_start e s2 else s2)
      in if off = TPU_IT_DSP_PG then s3\<lparr>dsp_page := ucast (v AND 1)\<rparr> else s3)"

definition tpu_ram_read :: "hwaddr \<Rightarrow> trx \<Rightarrow> u64" where
  "tpu_ram_read off s = (if off div 2 < CALYPSO_TPU_RAM_SIZE div 2 then ucast (tram s (off div 2)) else 0)"

definition tpu_ram_write :: "hwaddr \<Rightarrow> u64 \<Rightarrow> trx \<Rightarrow> trx" where
  "tpu_ram_write off v s = (if off div 2 < CALYPSO_TPU_RAM_SIZE div 2 then s\<lparr>tram := (tram s)(off div 2 := ucast v)\<rparr> else s)"

definition tsp_read :: "hwaddr \<Rightarrow> trx \<Rightarrow> u64" where
  "tsp_read off s = (if off = 0x08 then 0xFFFF else if off div 2 < 0x80 then ucast (tsp_regs s (off div 2)) else 0)"

definition tsp_write :: "hwaddr \<Rightarrow> u64 \<Rightarrow> trx \<Rightarrow> trx" where
  "tsp_write off v s = (if off div 2 < 0x80 then s\<lparr>tsp_regs := (tsp_regs s)(off div 2 := ucast v)\<rparr> else s)"

definition ulpd_read :: "hwaddr \<Rightarrow> trx \<Rightarrow> u64 \<times> trx" where
  "ulpd_read off s =
     (if 0x20 \<le> off \<and> off \<le> 0x40 then (0, s)
      else if off = 0x00 then (0x2003, s)
      else if off = 0x1C then
        (let s1 = s\<lparr>ulpd_counter := ulpd_counter s + 100\<rparr> in (ucast (drop_bit 16 (ulpd_counter s1) AND 0xFFFF), s1))
      else if off = 0x1E then (ucast (ulpd_counter s AND 0xFFFF), s)
      else if off = 0x24 then (1, s)
      else if off = 0x28 then (ucast (tfn s AND 0xFFFF), s)
      else if off div 2 < 0x80 then (ucast (ulpd_regs s (off div 2)), s)
      else (0, s))"

definition ulpd_write :: "hwaddr \<Rightarrow> u64 \<Rightarrow> trx \<Rightarrow> trx" where
  "ulpd_write off v s =
     (if 0x20 \<le> off \<and> off \<le> 0x40 then s
      else if off div 2 < 0x80 then s\<lparr>ulpd_regs := (ulpd_regs s)(off div 2 := ucast v)\<rparr> else s)"

section \<open>Initialisation and inputs\<close>

text \<open>
  \<open>bridge\<close> is the content of the shared segment when an external DSP is connected; the other devices are
  those the machine has created before. The registered layer 1 is disabled by the bridge.
\<close>

definition calypso_trx_init ::
  "trx_cfg \<Rightarrow> trx_env \<Rightarrow> (nat \<Rightarrow> u16) option \<Rightarrow> bool \<Rightarrow> inth \<Rightarrow> timer \<Rightarrow> uart option \<Rightarrow> uart option \<Rightarrow> tpu \<Rightarrow> trx" where
  "calypso_trx_init c e bridge has_l1 i tm um ui q =
     \<lparr>tfn = 0, fn_offset = 0, fn_offset_hist = replicate FN_SYNC_WINDOW 0, fn_offset_n = 0, fn_synced = False,
      api_ram = (case bridge of Some r \<Rightarrow> r
                 | None \<Rightarrow> (\<lambda>_. 0)(API_BL_STATUS div 2 := BL_STATUS_READY, API_VERSION div 2 := API_VERSION_VALUE)),
      dsp_page = 0, bl_booted = True, bl_polls = 0, bl_lu_fn = 0, burst_ring = replicate 8 0, burst_w = 0, burst_r = 0,
      burst_cur = 0, burst_last_fn = 0, rach_ra = 0, rach_ra_vue = False, rach_fn = (\<lambda>_. 0), rach_file = replicate 8 0,
      rach_file_w = 0, rach_file_r = 0,
      pont = (bridge \<noteq> None), pont_fd = (bridge \<noteq> None), pont_pending = False, pont_timeouts = 0, pont_frames = 0, pont_api_irqs = 0,
      tick_phase = 0, deux_phases = False, phase_a_recue = False, go_inutile = False, eoi_cible = 0, eoi_attentes = 0,
      eoi_timeouts = 0, eoi_longues = 0, dcch_a_dire = False, dcch_tn = 0, dcch_ss = 0, dcch_genre = 0, plog = [],
      tregs = (\<lambda>_. 0), tram = (\<lambda>_. 0), tsp_regs = (\<lambda>_. 0), ulpd_regs = (\<lambda>_. 0), ulpd_counter = 0,
      tdma_running = False, tdma_timer = None, frame_irq_timer = None, kick_timer = Some (rt e + cpu_kick_ns c),
      pont_boot_timer = (if bridge \<noteq> None then Some (rt e + GSM_TDMA_NS) else None), pacer_target = 0,
      dsp_line = False, halted = False, l1 = (has_l1 \<and> bridge = None), l1log = [],
      intc = i, timer1 = tm, modem = um, irda = ui, seqr = q\<rparr>"

text \<open>
  The inputs: the four timers, register accesses of the ARM, calls from the other parts of the machine,
  writes of the DSP into the shared RAM, and the accesses of the ARM to the interrupt handler, which
  acknowledge the frame.
\<close>

datatype trx_in =
    TrxTick trx_env
  | TrxBootTick trx_env
  | TrxIrqLower trx_env
  | TrxKick trx_env
  | TrxApiRead trx_env nat hwaddr
  | TrxApiWrite trx_env nat hwaddr u64
  | TrxTpuWrite trx_env hwaddr u64
  | TrxTpuRamWrite hwaddr u64
  | TrxTspWrite hwaddr u64
  | TrxUlpdRead hwaddr
  | TrxUlpdWrite hwaddr u64
  | TrxDspWord nat u16
  | TrxInth inth_in
  | TrxSch u32
  | TrxRachConf u32
  | TrxDcch int int int
  | TrxDspReset trx_env bool

fun trx_step :: "trx_cfg \<Rightarrow> trx \<Rightarrow> trx_in \<Rightarrow> trx" where
  "trx_step c s (TrxTick e) = tdma_tick c e (s\<lparr>tdma_timer := None\<rparr>)"
| "trx_step c s (TrxBootTick e) = pont_boot_tick e (s\<lparr>pont_boot_timer := None\<rparr>)"
| "trx_step c s (TrxIrqLower e) = frame_irq_lower e (s\<lparr>frame_irq_timer := None\<rparr>)"
| "trx_step c s (TrxKick e) = cpu_kick c e (s\<lparr>kick_timer := None\<rparr>)"
| "trx_step c s (TrxApiRead e sz off) = snd (api_read c e sz off s)"
| "trx_step c s (TrxApiWrite e sz off v) = api_write c e sz off v s"
| "trx_step c s (TrxTpuWrite e off v) = tpu_write e off v s"
| "trx_step c s (TrxTpuRamWrite off v) = tpu_ram_write off v s"
| "trx_step c s (TrxTspWrite off v) = tsp_write off v s"
| "trx_step c s (TrxUlpdRead off) = snd (ulpd_read off s)"
| "trx_step c s (TrxUlpdWrite off v) = ulpd_write off v s"
| "trx_step c s (TrxDspWord k v) = s\<lparr>api_ram := (api_ram s)(k := v)\<rparr>"
| "trx_step c s (TrxInth i) = s\<lparr>intc := inth_step (intc s) i\<rparr>"
| "trx_step c s (TrxSch f) = calypso_trx_autosync_fn f s"
| "trx_step c s (TrxRachConf f) = calypso_trx_rach_conf f s"
| "trx_step c s (TrxDcch g ss tn) = calypso_trx_dcch g ss tn s"
| "trx_step c s (TrxDspReset e act) = calypso_trx_dsp_reset_line e act s"

fun trx_ok :: "trx \<Rightarrow> trx_in \<Rightarrow> bool" where
  "trx_ok s (TrxTick e) \<longleftrightarrow> tdma_timer s \<noteq> None"
| "trx_ok s (TrxBootTick e) \<longleftrightarrow> pont_boot_timer s \<noteq> None"
| "trx_ok s (TrxIrqLower e) \<longleftrightarrow> frame_irq_timer s \<noteq> None"
| "trx_ok s (TrxKick e) \<longleftrightarrow> kick_timer s \<noteq> None"
| "trx_ok s (TrxDspWord k v) \<longleftrightarrow> pont s \<and> k < 0x2000"
| "trx_ok s (TrxInth i) \<longleftrightarrow> inth_ok (intc s) i"
| "trx_ok s _ \<longleftrightarrow> True"

text \<open>A configuration and an environment to run the model with: lock-step, one attempt to receive per frame.\<close>

definition demo_cfg :: trx_cfg where
  "demo_cfg = \<lparr>lockstep = True, arm_first_off = False, arm_lock = False, boot_poll = False, reqref_actif = True,
     retry_env = Some 1, kick_env = None, rattrapage = 0, afc_linked = False\<rparr>"

definition demo_env :: "pont_rx \<Rightarrow> trx_env" where
  "demo_env m = \<lparr>rt = 0, vt = 0, vm_running = True, rx_msg = m, tx_ok = (\<lambda>_. True), wall = 0, l1_read = (\<lambda>_. None), l1_si = False,
     l1_fn = None, last_rach = 0, cpu = None, rf_shm = None\<rparr>"

definition demo_init :: "(nat \<Rightarrow> u16) \<Rightarrow> trx" where
  "demo_init ram = calypso_trx_init demo_cfg (demo_env RxNone) (Some ram) False inth_init timer_init None None tpu_init"

end
