(* ===== verification/Trx_Rach.thy ===== *)
theory Trx_Rach
  imports Trx
begin

text \<open>
  Access attempts of \<open>hw/arm/calypso/calypso_trx.c\<close>: the queue of access references of \<open>Trx_Api\<close> as a list,
  and what the ARM reads in an IMMEDIATE ASSIGNMENT once the transceiver has confirmed the frames the attempts were
  sent in.
\<close>

section \<open>The access queue\<close>

text \<open>The references queued and not yet confirmed, oldest first.\<close>

definition rach_queue :: "'a trx_api_scheme \<Rightarrow> u8 list" where
  "rach_queue s = ring_list 8 ((!) (rach_file s)) (unat (rach_file_r s) mod 8) (unat (rach_file_w s - rach_file_r s))"

definition rach_ok :: "'a trx_api_scheme \<Rightarrow> bool" where
  "rach_ok s \<longleftrightarrow> length (rach_file s) = 8 \<and> unat (rach_file_w s - rach_file_r s) \<le> 8"

lemma ring_list_cong: "\<forall>i < N. f i = g i \<Longrightarrow> 0 < N \<Longrightarrow> ring_list N f t n = ring_list N g t n"
  by (simp add: ring_list_def)

lemma ring_list_nth_push:
  assumes "n < length xs"
  shows "ring_list (length xs) ((!) (xs[(t + n) mod length xs := x])) t (Suc n) = ring_list (length xs) ((!) xs) t n @ [x]"
proof -
  have "ring_list (length xs) ((!) (xs[(t + n) mod length xs := x])) t (Suc n) = ring_list (length xs) (((!) xs)((t + n) mod length xs := x)) t (Suc n)"
    using assms by (intro ring_list_cong) (auto simp: nth_list_update)
  then show ?thesis using ring_list_push [OF assms] by simp
qed

lemma rach_index: "unat w mod 8 = (unat r mod 8 + unat (w - r)) mod 8" for w r :: u32
proof -
  have "unat w = (unat (w - r) + unat r) mod 2 ^ 32" using unat_word_ariths(1) [of "w - r" r] by simp
  then have "unat w mod 8 = (unat (w - r) + unat r) mod 8" by (simp add: mod_mod_cancel)
  then show ?thesis by (simp add: mod_simps add.commute)
qed

lemma rach_count:
  fixes w r :: u32
  shows "w \<noteq> r \<Longrightarrow> unat (w - (r + 1)) = unat (w - r) - 1" and "unat (w - r) \<le> 8 \<Longrightarrow> unat (w + 1 - r) = unat (w - r) + 1"
proof -
  assume "w \<noteq> r"
  then have "w - r \<noteq> 0" by simp
  then show "unat (w - (r + 1)) = unat (w - r) - 1" using unat_minus_one [of "w - r"] by (simp add: diff_diff_add)
next
  assume "unat (w - r) \<le> 8"
  then have "unat (w - r + 1) = unat (w - r) + 1" by (simp add: unat_word_ariths)
  then show "unat (w + 1 - r) = unat (w - r) + 1" by (simp add: algebra_simps)
qed

lemma rach_next:
  assumes "rach_ok s" and "rach_file_w s \<noteq> rach_file_r s"
  shows "rach_ok (s\<lparr>rach_file_r := rach_file_r s + 1\<rparr>)" and "rach_queue (s\<lparr>rach_file_r := rach_file_r s + 1\<rparr>) = tl (rach_queue s)"
    and "rach_queue s \<noteq> []" and "hd (rach_queue s) = rach_file s ! (unat (rach_file_r s) mod 8)"
proof -
  obtain n where n: "unat (rach_file_w s - rach_file_r s) = Suc n"
    using assms(2) by (metis not0_implies_Suc right_minus_eq unat_eq_zero)
  have "unat (rach_file_r s + 1) mod 8 = (unat (rach_file_r s) mod 8 + 1) mod 8" using rach_index [of "rach_file_r s + 1" "rach_file_r s"] by simp
  then have q: "rach_queue s = rach_file s ! (unat (rach_file_r s) mod 8) # rach_queue (s\<lparr>rach_file_r := rach_file_r s + 1\<rparr>)"
    using n rach_count(1) [OF assms(2)] ring_list_pop [of "unat (rach_file_r s) mod 8" 8 "(!) (rach_file s)" n] by (simp add: rach_queue_def)
  then show "rach_queue (s\<lparr>rach_file_r := rach_file_r s + 1\<rparr>) = tl (rach_queue s)" "rach_queue s \<noteq> []"
    "hd (rach_queue s) = rach_file s ! (unat (rach_file_r s) mod 8)" by simp_all
  show "rach_ok (s\<lparr>rach_file_r := rach_file_r s + 1\<rparr>)" using assms(1) rach_count(1) [OF assms(2)] by (auto simp: rach_ok_def intro: le_trans [OF diff_le_self])
qed

lemma rach_written_fits:
  assumes "rach_ok s" and "length (rach_queue s) < 8"
  shows "rach_ok (rach_written ra s)" and "rach_queue (rach_written ra s) = rach_queue s @ [ra]"
proof -
  have n: "unat (rach_file_w s - rach_file_r s) < 8" using assms(2) by (simp add: rach_queue_def)
  then have w: "rach_written ra s = s\<lparr>rach_file := (rach_file s)[unat (rach_file_w s) mod 8 := ra], rach_file_w := rach_file_w s + 1\<rparr>"
    by (simp add: rach_written_def Let_def word_le_nat_alt)
  have c: "unat (rach_file_w s + 1 - rach_file_r s) = Suc (unat (rach_file_w s - rach_file_r s))"
    using rach_count(2) [of "rach_file_w s" "rach_file_r s"] n by simp
  show "rach_ok (rach_written ra s)" using assms(1) n c by (simp add: w rach_ok_def)
  show "rach_queue (rach_written ra s) = rach_queue s @ [ra]"
    using assms(1) n c ring_list_nth_push [of "unat (rach_file_w s - rach_file_r s)" "rach_file s" "unat (rach_file_r s) mod 8" ra]
    by (simp add: w rach_queue_def rach_ok_def rach_index [of "rach_file_w s" "rach_file_r s"])
qed

lemma rach_written_full:
  assumes "rach_ok s" and "length (rach_queue s) = 8"
  shows "rach_ok (rach_written ra s)" and "rach_queue (rach_written ra s) = tl (rach_queue s) @ [ra]"
proof -
  let ?s = "s\<lparr>rach_file_r := rach_file_r s + 1\<rparr>"
  have n: "unat (rach_file_w s - rach_file_r s) = 8" using assms(2) by (simp add: rach_queue_def)
  then have ne: "rach_file_w s \<noteq> rach_file_r s" by auto
  have "rach_written ra s = rach_written ra ?s"
    using n rach_count(1) [OF ne] by (simp add: rach_written_def Let_def word_le_nat_alt)
  then show "rach_ok (rach_written ra s)" "rach_queue (rach_written ra s) = tl (rach_queue s) @ [ra]"
    using rach_next(1,2) [OF assms(1) ne] rach_written_fits [of ?s ra] assms(2) by simp_all
qed

lemma rach_conf_next:
  assumes "rach_ok s" and "f \<noteq> 0" and "rach_queue s = ra # q"
  shows "rach_ok (calypso_trx_rach_conf f s)" and "rach_queue (calypso_trx_rach_conf f s) = q"
    and "rach_fn (calypso_trx_rach_conf f s) = (rach_fn s)(ra := f)"
proof -
  have ne: "rach_file_w s \<noteq> rach_file_r s" using assms(3) by (auto simp: rach_queue_def)
  note n = rach_next [OF assms(1) ne]
  have e: "calypso_trx_rach_conf f s = (s\<lparr>rach_file_r := rach_file_r s + 1\<rparr>)\<lparr>rach_fn := (rach_fn s)(ra := f), rach_ra := ra, rach_ra_vue := True\<rparr>"
    using n(4) assms(2,3) ne by (simp add: calypso_trx_rach_conf_def Let_def)
  show "rach_ok (calypso_trx_rach_conf f s)" using n(1) by (simp add: e rach_ok_def)
  show "rach_queue (calypso_trx_rach_conf f s) = q" using n(2) assms(3) by (simp add: e rach_queue_def)
  show "rach_fn (calypso_trx_rach_conf f s) = (rach_fn s)(ra := f)" by (simp add: e)
qed

lemma rach_written_all:
  assumes "rach_ok s" and "length (rach_queue s) + length ras \<le> 8"
  shows "rach_ok (fold rach_written ras s) \<and> rach_queue (fold rach_written ras s) = rach_queue s @ ras"
  using assms
proof (induction ras arbitrary: s)
  case (Cons ra ras)
  then show ?case using rach_written_fits [of s ra] by (simp add: Cons.IH)
qed simp

lemma rach_conf_all:
  assumes "rach_ok s" and "rach_queue s = ras" and "length fs = length ras" and "0 \<notin> set fs"
  shows "\<forall>i < length fs. ras ! i \<notin> set (drop (Suc i) ras) \<longrightarrow> rach_fn (fold calypso_trx_rach_conf fs s) (ras ! i) = fs ! i"
    and "\<forall>r. r \<notin> set ras \<longrightarrow> rach_fn (fold calypso_trx_rach_conf fs s) r = rach_fn s r"
  using assms
proof (induction fs arbitrary: s ras)
  case (Cons f fs)
  {
    case 1
    then obtain ra q where q: "ras = ra # q" by (cases ras) auto
    then show ?case
      using 1 rach_conf_next [of s f ra q] Cons.IH [of "calypso_trx_rach_conf f s" q] by (auto simp: nth_Cons split: nat.splits)
  next
    case 2
    then obtain ra q where q: "ras = ra # q" by (cases ras) auto
    then show ?case
      using 2 rach_conf_next [of s f ra q] Cons.IH [of "calypso_trx_rach_conf f s" q] by auto
  }
qed simp_all

lemma rach_ram [simp]: "api_ram (fold rach_written ras s) = api_ram s" "api_ram (fold calypso_trx_rach_conf fs s) = api_ram s"
  by (induction ras arbitrary: s, simp_all add: rach_written_def Let_def)
    (induction fs arbitrary: s, simp_all add: calypso_trx_rach_conf_def Let_def)

text \<open>C15. Access attempts and their frames keep their order: when up to eight access references are sent from an
  empty queue and the transceiver confirms as many frames, none of them frame 0, the corrected request reference the
  ARM then reads in an IMMEDIATE ASSIGNMENT for any of these references, not only the last one written, carries T1', T2
  and T3 of the frame confirmed for the latest attempt that used the reference, and the frame the terminal computes from
  them is that frame modulo 42432.\<close>

theorem trx_reqref:
  assumes "rach_ok s" and "rach_queue s = []" and "length ras \<le> 8" and "length fs = length ras" and "0 \<notin> set fs"
    and "i < length ras" and "ras ! i \<notin> set (drop (Suc i) ras)" and "api_byte s (API_NDB + NDB_A_CD + 7) = 0x06" and "api_byte s (API_NDB + NDB_A_CD + 8) = 0x3f"
    and "api_byte s (API_NDB + NDB_A_CD + 13) = ras ! i"
  shows "\<exists>w. pont_reqref_corrigee True lr (API_NDB + NDB_A_CD + 14) (fold calypso_trx_rach_conf fs (fold rach_written ras s)) = Some w
    \<and> gsm_time_fn (uint (reqref_t1 w)) (uint (reqref_t2 w)) (uint (reqref_t3 w)) = uint (fs ! i) mod 42432"
proof -
  let ?s = "fold calypso_trx_rach_conf fs (fold rach_written ras s)"
  have "rach_ok (fold rach_written ras s)" "rach_queue (fold rach_written ras s) = ras"
    using rach_written_all [OF assms(1)] assms(2,3) by simp_all
  then have f: "rach_fn ?s (ras ! i) = fs ! i" using rach_conf_all(1) assms(4-7) by metis
  have b: "api_byte ?s off = api_byte s off" for off by (simp add: api_byte_def)
  have "fs ! i \<noteq> 0" using assms(4-6) nth_mem [of i fs] by metis
  then have "pont_reqref_corrigee True lr (API_NDB + NDB_A_CD + 14) ?s = Some (reqref_encode (fs ! i))"
    using assms(8-10) f by (simp add: pont_reqref_corrigee_def b Let_def)
  then show ?thesis using reqref_frame by blast
qed

definition rach_demo :: trx where
  "rach_demo = demo_init ((\<lambda>_. 0)(0x1D5 := 0x0600, 0x1D6 := 0x003F, 0x1D8 := 0x4200))"

theorem trx_reqref_witness:
  "\<exists>w. pont_reqref_corrigee True 0 (API_NDB + NDB_A_CD + 14)
      (fold calypso_trx_rach_conf [1000, 2000000, 1500] (fold rach_written [0x42, 0x42, 0x17] rach_demo)) = Some w
    \<and> gsm_time_fn (uint (reqref_t1 w)) (uint (reqref_t2 w)) (uint (reqref_t3 w)) = uint ([1000, 2000000, 1500 :: u32] ! 1) mod 42432"
proof (rule trx_reqref)
  show "rach_ok rach_demo" "rach_queue rach_demo = []" by (simp_all add: rach_ok_def rach_queue_def rach_demo_def demo_init_def calypso_trx_init_def)
  show "api_byte rach_demo (API_NDB + NDB_A_CD + 7) = 0x06" "api_byte rach_demo (API_NDB + NDB_A_CD + 8) = 0x3f"
    "api_byte rach_demo (API_NDB + NDB_A_CD + 13) = [0x42, 0x42, 0x17] ! 1"
    by (simp_all add: api_byte_def rach_demo_def demo_init_def calypso_trx_init_def)
qed simp_all

end
