(* ===== verification/Trx_Lockstep.thy ===== *)
theory Trx_Lockstep
  imports Trx
begin

text \<open>
  The protocol of the bridge between the ARM side and the DSP: a frame is never announced before the
  previous one was answered, in lock-step the announced frames are consecutive, and the wait for the ARM
  within a frame is bounded.
\<close>

section \<open>The part of the state the protocol works on\<close>

definition trx_core ::
  "trx \<Rightarrow> bool \<times> bool \<times> bool \<times> pont_ev list \<times> u32 \<times> bool \<times> nat \<times> u32 \<times> bool \<times> bool" where
  "trx_core s = (pont s, pont_fd s, pont_pending s, plog s, tfn s, tdma_running s, tick_phase s, eoi_attentes s, phase_a_recue s, go_inutile s)"

lemma trx_coreD:
  assumes "trx_core t = trx_core s"
  shows "pont t = pont s" "pont_fd t = pont_fd s" "pont_pending t = pont_pending s" "plog t = plog s" "tfn t = tfn s"
    "tdma_running t = tdma_running s" "tick_phase t = tick_phase s" "eoi_attentes t = eoi_attentes s"
    "phase_a_recue t = phase_a_recue s" "go_inutile t = go_inutile s"
  using assms by (simp_all add: trx_core_def)

named_theorems core \<open>operations that leave the protocol state alone\<close>

lemma core_irq [core]: "trx_core (irq_raise n s) = trx_core s" "trx_core (irq_lower n s) = trx_core s"
  by (simp_all add: irq_raise_def irq_lower_def trx_core_def)

lemma core_serve [core]: "trx_core (serve_uarts s) = trx_core s"
  by (simp add: serve_uarts_def serve_irda_def serve_modem_def trx_core_def split: option.splits)

lemma core_seq [core]: "trx_core (seq_on_regs f s) = trx_core s"
  by (simp add: seq_on_regs_def trx_core_def Let_def)

lemma core_l1_call [core]: "trx_core (l1_call e s) = trx_core s"
  by (simp add: l1_call_def trx_core_def)

lemma core_frame_irq [core]: "trx_core (frame_irq e s) = trx_core s"
  by (simp add: frame_irq_def irq_raise_def trx_core_def Let_def)

lemma core_later [core]: "trx_core (tdma_later c e s) = trx_core s"
  by (simp add: tdma_later_def trx_core_def)

lemma core_pacer [core]: "trx_core (tdma_pacer c e s) = trx_core s"
  by (simp add: tdma_pacer_def trx_core_def Let_def)

lemma core_put [core]: "trx_core (api_put off v s) = trx_core s"
  by (simp add: api_put_def trx_core_def)

lemma core_tick_b [core]: "trx_core (snd (pont_tick_b s)) = trx_core s"
  by (simp add: pont_tick_b_def trx_core_def Let_def)

lemmas core_fields [simp] =
  trx_coreD [OF core_irq(1)] trx_coreD [OF core_irq(2)] trx_coreD [OF core_serve] trx_coreD [OF core_seq] trx_coreD [OF core_l1_call]
  trx_coreD [OF core_frame_irq] trx_coreD [OF core_later] trx_coreD [OF core_pacer] trx_coreD [OF core_put] trx_coreD [OF core_tick_b]

section \<open>The log of messages\<close>

fun is_tick :: "pont_ev \<Rightarrow> bool" where
  "is_tick (PSent ty a b d) \<longleftrightarrow> ty = PONT_TICK"
| "is_tick (PRecv ty a) \<longleftrightarrow> False"

fun is_done :: "pont_ev \<Rightarrow> bool" where
  "is_done (PRecv ty a) \<longleftrightarrow> ty = PONT_DONE"
| "is_done (PSent ty a b d) \<longleftrightarrow> False"

text \<open>The frames announced, and whether the last one was answered.\<close>

fun tick_frames :: "pont_ev list \<Rightarrow> u32 list" where
  "tick_frames [] = []"
| "tick_frames (PSent ty a b d # es) = (if ty = PONT_TICK then a # tick_frames es else tick_frames es)"
| "tick_frames (PRecv ty a # es) = tick_frames es"

definition answered :: "pont_ev list \<Rightarrow> bool" where
  "answered es = foldl (\<lambda>b e. if is_tick e then False else if is_done e then True else b) True es"

definition well_ticked :: "pont_ev list \<Rightarrow> bool" where
  "well_ticked es \<longleftrightarrow> (\<forall>k < length es. is_tick (es ! k) \<longrightarrow> answered (take k es))"

lemma tick_frames_append [simp]: "tick_frames (xs @ ys) = tick_frames xs @ tick_frames ys"
  by (induction xs rule: tick_frames.induct) simp_all

lemma answered_simps [simp]:
  "answered []" "answered (xs @ [PSent ty a b d]) \<longleftrightarrow> ty \<noteq> PONT_TICK \<and> answered xs" "answered (xs @ [PRecv ty a]) \<longleftrightarrow> ty = PONT_DONE \<or> answered xs"
  by (simp_all add: answered_def)

lemma well_ticked_snoc [simp]: "well_ticked (xs @ [e]) \<longleftrightarrow> well_ticked xs \<and> (is_tick e \<longrightarrow> answered xs)"
  by (auto simp: well_ticked_def nth_append less_Suc_eq)

lemma well_ticked_Nil [simp]: "well_ticked []"
  by (simp add: well_ticked_def)

section \<open>Every frame is answered before the next\<close>

text \<open>The invariant; the last two parts bound the frame number and the count of waits.\<close>

definition pont_inv :: "trx \<Rightarrow> bool" where
  "pont_inv s \<longleftrightarrow> well_ticked (plog s) \<and> (\<not> pont_pending s \<longrightarrow> answered (plog s))"

lemma pont_inv_core: "trx_core t = trx_core s \<Longrightarrow> pont_inv t \<longleftrightarrow> pont_inv s"
  by (simp add: pont_inv_def trx_coreD [of t s])

lemma pont_send_inv:
  assumes "pont_inv s" and "ty \<noteq> PONT_TICK"
  shows "pont_inv (snd (pont_send e ty a b d s))"
  using assms by (auto simp: pont_inv_def pont_send_def)

lemma pont_send_fields [simp]:
  "pont (snd (pont_send e ty a b d s)) = pont s" "pont_fd (snd (pont_send e ty a b d s)) = pont_fd s"
  "pont_pending (snd (pont_send e ty a b d s)) = pont_pending s" "tfn (snd (pont_send e ty a b d s)) = tfn s"
  "tdma_running (snd (pont_send e ty a b d s)) = tdma_running s" "tick_phase (snd (pont_send e ty a b d s)) = tick_phase s"
  "eoi_attentes (snd (pont_send e ty a b d s)) = eoi_attentes s"
  by (simp_all add: pont_send_def)

lemma pont_send_ticks [simp]: "ty \<noteq> PONT_TICK \<Longrightarrow> tick_frames (plog (snd (pont_send e ty a b d s))) = tick_frames (plog s)"
  by (simp add: pont_send_def)

lemma pont_recv_fields [simp]:
  "pont (snd (pont_recv e s)) = pont s" "pont_pending (snd (pont_recv e s)) = pont_pending s" "tfn (snd (pont_recv e s)) = tfn s"
  "tdma_running (snd (pont_recv e s)) = tdma_running s" "tick_phase (snd (pont_recv e s)) = tick_phase s"
  "eoi_attentes (snd (pont_recv e s)) = eoi_attentes s" "phase_a_recue (snd (pont_recv e s)) = phase_a_recue s"
  "tick_frames (plog (snd (pont_recv e s))) = tick_frames (plog s)"
  by (simp_all add: pont_recv_def split: pont_rx.splits)

lemma pont_recv_fd: "rx_msg e \<noteq> RxLost \<Longrightarrow> pont_fd (snd (pont_recv e s)) = pont_fd s"
  by (simp add: pont_recv_def split: pont_rx.splits)

lemma pont_recv_inv:
  assumes "pont_inv s"
  shows "pont_inv (snd (pont_recv e s))" and "done_flags (fst (pont_recv e s)) = Some a \<Longrightarrow> answered (plog (snd (pont_recv e s)))"
  using assms by (auto simp: pont_inv_def pont_recv_def done_flags_def split: pont_rx.splits if_splits)

lemma pont_collect_fields [simp]:
  "pont (pont_collect a s) = pont s" "pont_fd (pont_collect a s) = pont_fd s" "\<not> pont_pending (pont_collect a s)" "tfn (pont_collect a s) = tfn s"
  "tdma_running (pont_collect a s) = tdma_running s" "tick_phase (pont_collect a s) = tick_phase s" "plog (pont_collect a s) = plog s"
  "eoi_attentes (pont_collect a s) = eoi_attentes s"
  by (simp_all add: pont_collect_def Let_def)

lemma pont_collect_inv: "pont_inv s \<Longrightarrow> answered (plog s) \<Longrightarrow> pont_inv (pont_collect a s)"
  by (simp add: pont_inv_def)


text \<open>The state before the TICK goes out: the one-shot interrupt is consumed, the channel announced.\<close>

definition tick_ready :: "trx_env \<Rightarrow> trx \<Rightarrow> trx" where
  "tick_ready e s =
     (let s1 = snd (pont_tick_b s)
      in if dcch_a_dire s1
         then snd (pont_send e PONT_DCCH (ucast (dcch_tn s1)) (word_of_int (dcch_genre s1)) (ucast (dcch_ss s1)) (s1\<lparr>dcch_a_dire := False\<rparr>))
         else s1)"

lemma tick_ready_fields [simp]:
  "pont (tick_ready e s) = pont s" "pont_fd (tick_ready e s) = pont_fd s" "pont_pending (tick_ready e s) = pont_pending s"
  "tfn (tick_ready e s) = tfn s" "tdma_running (tick_ready e s) = tdma_running s" "tick_phase (tick_ready e s) = tick_phase s"
  "eoi_attentes (tick_ready e s) = eoi_attentes s" "tick_frames (plog (tick_ready e s)) = tick_frames (plog s)"
  by (simp_all add: tick_ready_def Let_def)

lemma tick_ready_inv:
  assumes "pont_inv s"
  shows "pont_inv (tick_ready e s)"
proof -
  have "pont_inv ((snd (pont_tick_b s))\<lparr>dcch_a_dire := False\<rparr>)" "pont_inv (snd (pont_tick_b s))"
    using assms by (simp_all add: pont_inv_def)
  then show ?thesis by (simp add: tick_ready_def Let_def pont_send_inv)
qed

lemma pont_tick_out_eq:
  obtains b d where "pont_tick_out e s =
    (if pont_fd s \<and> tx_ok e PONT_TICK
     then (tick_ready e s)\<lparr>plog := plog (tick_ready e s) @ [PSent PONT_TICK (tfn s) b d], pont_pending := True\<rparr> else tick_ready e s)"
proof -
  let ?t = "tick_ready e s"
  have "snd (pont_send e PONT_TICK (tfn ?t) b d ?t) = (if pont_fd s \<and> tx_ok e PONT_TICK then ?t\<lparr>plog := plog ?t @ [PSent PONT_TICK (tfn s) b d]\<rparr> else ?t)"
    "fst (pont_send e PONT_TICK (tfn ?t) b d ?t) = (pont_fd s \<and> tx_ok e PONT_TICK)" for b d
    by (simp_all add: pont_send_def)
  then show ?thesis using that
    by (cases "pont_fd s \<and> tx_ok e PONT_TICK") (auto simp: pont_tick_out_def tick_ready_def Let_def split_beta)
qed

lemma pont_tick_out_fields [simp]:
  "pont (pont_tick_out e s) = pont s" "pont_fd (pont_tick_out e s) = pont_fd s" "tfn (pont_tick_out e s) = tfn s"
  "tdma_running (pont_tick_out e s) = tdma_running s" "tick_phase (pont_tick_out e s) = tick_phase s" "eoi_attentes (pont_tick_out e s) = eoi_attentes s"
  "pont_pending (pont_tick_out e s) \<longleftrightarrow> pont_pending s \<or> pont_fd s \<and> tx_ok e PONT_TICK"
  "tick_frames (plog (pont_tick_out e s)) = tick_frames (plog s) @ (if pont_fd s \<and> tx_ok e PONT_TICK then [tfn s] else [])"
  by (rule pont_tick_out_eq [of e s]; auto)+

lemma pont_tick_out_inv:
  assumes "pont_inv s" and "\<not> pont_pending s"
  shows "pont_inv (pont_tick_out e s)"
proof (rule pont_tick_out_eq [of e s])
  fix b d
  assume "pont_tick_out e s =
    (if pont_fd s \<and> tx_ok e PONT_TICK
     then (tick_ready e s)\<lparr>plog := plog (tick_ready e s) @ [PSent PONT_TICK (tfn s) b d], pont_pending := True\<rparr> else tick_ready e s)"
  then show ?thesis using tick_ready_inv [OF assms(1), of e] assms(2) by (auto simp: pont_inv_def)
qed

lemma pont_echange_fields [simp]:
  "pont (pont_echange e s) = pont s" "tfn (pont_echange e s) = tfn s" "tdma_running (pont_echange e s) = tdma_running s"
  "tick_phase (pont_echange e s) = tick_phase s" "eoi_attentes (pont_echange e s) = eoi_attentes s"
  by (simp_all add: pont_echange_def split_beta Let_def split: option.splits)

lemma pont_echange_inv:
  assumes "pont_inv s"
  shows "pont_inv (pont_echange e s)"
proof -
  have "pont_inv (s1\<lparr>pont_timeouts := n\<rparr>) = pont_inv s1" for s1 n by (simp add: pont_inv_def)
  then show ?thesis using assms pont_recv_inv [OF assms, of e]
    by (auto simp: pont_echange_def split_beta Let_def intro!: pont_tick_out_inv pont_collect_inv split: option.splits)
qed

lemma pont_echange_free:
  assumes "pont_fd s" and "\<not> pont_pending s"
  shows "pont_echange e s = pont_tick_out e s"
  using assms by (simp add: pont_echange_def)

lemma pont_boot_pas_fields [simp]:
  "pont (pont_boot_pas e s) = pont s" "tfn (pont_boot_pas e s) = tfn s" "tdma_running (pont_boot_pas e s) = tdma_running s"
  "tick_phase (pont_boot_pas e s) = tick_phase s" "eoi_attentes (pont_boot_pas e s) = eoi_attentes s"
  by (simp_all add: pont_boot_pas_def split_beta Let_def split: option.splits)

lemma pont_boot_pas_inv:
  assumes "pont_inv s"
  shows "pont_inv (pont_boot_pas e s)"
proof -
  define s1 where "s1 = (if \<not> pont_pending s then pont_echange e s else s)"
  have "pont_inv s1" using assms by (simp add: s1_def pont_echange_inv)
  then show ?thesis using assms pont_recv_inv [of s1 e]
    by (auto simp: pont_boot_pas_def s1_def [symmetric] split_beta Let_def intro!: pont_collect_inv split: option.splits)
qed

section \<open>The second phase of a frame\<close>

lemma phase_a_collect_fields [simp]:
  "pont (phase_a_collect e s) = pont s" "tfn (phase_a_collect e s) = tfn s" "tdma_running (phase_a_collect e s) = tdma_running s"
  "tick_phase (phase_a_collect e s) = tick_phase s" "eoi_attentes (phase_a_collect e s) = eoi_attentes s"
  "tick_frames (plog (phase_a_collect e s)) = tick_frames (plog s)"
  by (simp_all add: phase_a_collect_def split_beta Let_def split: option.splits)

lemma phase_a_collect_inv:
  assumes "pont_inv s"
  shows "pont_inv (phase_a_collect e s)"
proof -
  have "pont_inv (s1\<lparr>phase_a_recue := b\<rparr>) = pont_inv s1" "pont_inv (s1\<lparr>phase_a_recue := b, go_inutile := g\<rparr>) = pont_inv s1" for s1 b g
    by (simp_all add: pont_inv_def)
  then show ?thesis using assms pont_recv_inv [OF assms, of e]
    by (auto simp: phase_a_collect_def split_beta Let_def intro!: pont_collect_inv split: option.splits)
qed

lemma phase_a_step_core:
  "phase_a_recue s \<Longrightarrow> phase_a_step e s = s"
  "\<not> phase_a_recue s \<Longrightarrow> trx_core (phase_a_step e s) = trx_core (phase_a_collect e s)"
  by (simp_all add: phase_a_step_def trx_core_def Let_def)

lemma phase_a_step_fields [simp]:
  "pont (phase_a_step e s) = pont s" "tfn (phase_a_step e s) = tfn s" "tdma_running (phase_a_step e s) = tdma_running s"
  "tick_phase (phase_a_step e s) = tick_phase s" "eoi_attentes (phase_a_step e s) = eoi_attentes s"
  "tick_frames (plog (phase_a_step e s)) = tick_frames (plog s)"
  by (cases "phase_a_recue s"; simp add: phase_a_step_core trx_coreD [OF phase_a_step_core(2)])+

lemma phase_a_step_inv: "pont_inv s \<Longrightarrow> pont_inv (phase_a_step e s)"
  using phase_a_step_core [of s e] phase_a_collect_inv [of s e] pont_inv_core [of "phase_a_step e s" "phase_a_collect e s"]
  by (cases "phase_a_recue s") auto

lemma tick_go_fields [simp]:
  "pont (tick_go c e f s) = pont s" "pont_fd (tick_go c e f s) = pont_fd s" "tfn (tick_go c e f s) = tfn s"
  "tdma_running (tick_go c e f s) = tdma_running s" "tick_phase (tick_go c e f s) = 0"
  "tick_frames (plog (tick_go c e f s)) = tick_frames (plog s)"
  by (simp_all add: tick_go_def Let_def)

lemma tick_go_inv:
  assumes "pont_inv s"
  shows "pont_inv (tick_go c e f s)"
proof -
  have k: "pont_inv (t\<lparr>tick_phase := 0\<rparr>) = pont_inv t" "pont_inv (t\<lparr>eoi_cible := x, eoi_timeouts := y\<rparr>) = pont_inv t" for t x y
    by (simp_all add: pont_inv_def)
  show ?thesis using assms
    by (simp add: tick_go_def Let_def pont_inv_core [OF core_pacer] pont_inv_core [OF core_frame_irq] k pont_send_inv)
qed

lemma tick_wait_inv:
  assumes "pont_inv s"
  shows "pont_inv (tick_wait c e s)"
proof -
  have k: "pont_inv (t\<lparr>eoi_attentes := x\<rparr>) = pont_inv t" "pont_inv (t\<lparr>eoi_longues := y\<rparr>) = pont_inv t" for t x y
    by (simp_all add: pont_inv_def)
  show ?thesis using phase_a_step_inv [OF assms, of e]
    by (simp add: tick_wait_def Let_def pont_inv_core [OF core_later] pont_inv_core [OF core_serve] k tick_go_inv)
qed


section \<open>The frame tick\<close>

text \<open>The state in which a frame tick meets the bridge: frame number advanced, sequencer and UARTs served.\<close>

definition tick_start :: "trx_cfg \<Rightarrow> trx_env \<Rightarrow> trx \<Rightarrow> trx" where
  "tick_start c e s = (let s1 = tick_serve c e s in s1\<lparr>deux_phases := deux_phases s1 \<or> arm_first c\<rparr>)"

lemma tick_serve_fields [simp]:
  "pont (tick_serve c e s) = pont s" "pont_fd (tick_serve c e s) = pont_fd s" "pont_pending (tick_serve c e s) = pont_pending s"
  "tfn (tick_serve c e s) = tick_fn c e s" "tdma_running (tick_serve c e s) = tdma_running s" "tick_phase (tick_serve c e s) = tick_phase s"
  "eoi_attentes (tick_serve c e s) = eoi_attentes s" "plog (tick_serve c e s) = plog s"
  by (simp_all add: tick_serve_def Let_def)

lemma tick_start_fields [simp]:
  "pont (tick_start c e s) = pont s" "pont_fd (tick_start c e s) = pont_fd s" "pont_pending (tick_start c e s) = pont_pending s"
  "tfn (tick_start c e s) = tick_fn c e s" "tdma_running (tick_start c e s) = tdma_running s" "tick_phase (tick_start c e s) = tick_phase s"
  "eoi_attentes (tick_start c e s) = eoi_attentes s" "plog (tick_start c e s) = plog s"
  by (simp_all add: tick_start_def Let_def)

lemma tick_frame_eq: "pont s \<Longrightarrow> tick_frame c e s = tick_end c e ((pont_echange e (tick_start c e s))\<lparr>deux_phases := False\<rparr>)"
  by (simp add: tick_frame_def tick_start_def Let_def)

lemma tick_end_fields [simp]:
  "pont (tick_end c e t) = pont t" "pont_fd (tick_end c e t) = pont_fd t" "pont_pending (tick_end c e t) = pont_pending t"
  "tfn (tick_end c e t) = tfn t" "tdma_running (tick_end c e t) = tdma_running t" "plog (tick_end c e t) = plog t"
  "tick_phase (tick_end c e t) = (if pont t \<and> pont_fd t \<and> arm_first c \<and> pont_pending t then 1 else tick_phase t)"
  "eoi_attentes (tick_end c e t) = (if pont t \<and> pont_fd t \<and> arm_first c \<and> pont_pending t then 0 else eoi_attentes t)"
  by (simp_all add: tick_end_def Let_def)

lemma tick_frame_alone:
  assumes "\<not> pont s"
  shows "pont (tick_frame c e s) = pont s" "pont_fd (tick_frame c e s) = pont_fd s" "pont_pending (tick_frame c e s) = pont_pending s"
    "tfn (tick_frame c e s) = tick_fn c e s" "tdma_running (tick_frame c e s) = tdma_running s" "plog (tick_frame c e s) = plog s"
    "tick_phase (tick_frame c e s) = tick_phase s" "eoi_attentes (tick_frame c e s) = eoi_attentes s"
  using assms by (simp_all add: tick_frame_def Let_def)

lemma tick_frame_inv:
  assumes "pont_inv s"
  shows "pont_inv (tick_frame c e s)"
proof (cases "pont s")
  case True
  have "pont_inv (tick_start c e s)" using assms by (simp add: pont_inv_def)
  from pont_echange_inv [OF this, of e] show ?thesis using True by (simp add: tick_frame_eq pont_inv_def)
next
  case False
  then show ?thesis using assms by (simp add: pont_inv_def tick_frame_alone)
qed

lemma tdma_tick_inv:
  assumes "pont_inv s"
  shows "pont_inv (tdma_tick c e s)"
proof -
  have "pont_inv (s\<lparr>tdma_timer := x\<rparr>)" for x using assms by (simp add: pont_inv_def)
  then show ?thesis using assms pont_recv_inv [OF assms, of e]
    by (auto simp: tdma_tick_def split_beta Let_def pont_inv_core [OF core_later] pont_inv_core [OF core_serve] tick_wait_inv
        intro!: tick_frame_inv pont_collect_inv split: option.splits)
qed

section \<open>The other inputs\<close>

lemma tpu_done_core: "trx_core (tpu_done e s) = trx_core s"
  by (simp add: tpu_done_def irq_raise_def trx_core_def Let_def)

lemmas tpu_done_fields [simp] = trx_coreD [OF tpu_done_core]

lemma tdma_start_fields [simp]:
  "pont (tdma_start e s) = pont s" "pont_fd (tdma_start e s) = pont_fd s" "pont_pending (tdma_start e s) = pont_pending s"
  "tfn (tdma_start e s) = 0" "tdma_running (tdma_start e s)" "tick_phase (tdma_start e s) = tick_phase s"
  "eoi_attentes (tdma_start e s) = eoi_attentes s" "plog (tdma_start e s) = plog s"
  by (simp_all add: tdma_start_def)

lemma tpu_write_fields [simp]:
  "pont (tpu_write e off v s) = pont s" "pont_fd (tpu_write e off v s) = pont_fd s" "pont_pending (tpu_write e off v s) = pont_pending s"
  "tick_phase (tpu_write e off v s) = tick_phase s" "eoi_attentes (tpu_write e off v s) = eoi_attentes s" "plog (tpu_write e off v s) = plog s"
  by (simp_all add: tpu_write_def Let_def)

lemma tpu_write_clock:
  "tfn (tpu_write e off v s) = tfn s \<or> (\<not> tdma_running s \<and> tfn (tpu_write e off v s) = 0)"
  "tdma_running s \<Longrightarrow> tdma_running (tpu_write e off v s)"
  by (simp_all add: tpu_write_def Let_def)

lemma api_read_core:
  "trx_core (snd (api_read c e sz off s)) = trx_core s \<or> (\<not> tdma_running s \<and> (\<exists>t. trx_core t = trx_core s \<and> trx_core (snd (api_read c e sz off s)) = trx_core (pont_boot_pas e t)))"
proof -
  have e: "trx_core (snd (api_read_emul e off v s)) = trx_core s" for v
    by (simp add: api_read_emul_def trx_core_def Let_def)
  have p: "trx_core (snd (api_read_pont c e off v s)) = trx_core s
      \<or> (\<not> tdma_running s \<and> (\<exists>t. trx_core t = trx_core s \<and> trx_core (snd (api_read_pont c e off v s)) = trx_core (pont_boot_pas e t)))" for v
  proof -
    let ?t = "s\<lparr>bl_lu_fn := tfn s + 1, bl_polls := bl_polls s + 1\<rparr>"
    have "trx_core ?t = trx_core s" by (simp add: trx_core_def)
    then show ?thesis by (auto simp: api_read_pont_def Let_def) (simp_all add: trx_core_def)
  qed
  show ?thesis using e p by (auto simp: api_read_def Let_def)
qed

lemma api_read_phase:
  "tick_phase (snd (api_read c e sz off s)) = tick_phase s" "eoi_attentes (snd (api_read c e sz off s)) = eoi_attentes s"
proof -
  have "tick_phase (snd (api_read c e sz off s)) = tick_phase s \<and> eoi_attentes (snd (api_read c e sz off s)) = eoi_attentes s"
    using api_read_core [of c e sz off s]
  proof (elim disjE conjE exE)
    fix t assume "trx_core t = trx_core s" "trx_core (snd (api_read c e sz off s)) = trx_core (pont_boot_pas e t)"
    from this [THEN trx_coreD(7)] this [THEN trx_coreD(8)] show ?thesis by simp
  next
    assume "trx_core (snd (api_read c e sz off s)) = trx_core s"
    from trx_coreD(7,8) [OF this] show ?thesis by simp
  qed
  then show "tick_phase (snd (api_read c e sz off s)) = tick_phase s" "eoi_attentes (snd (api_read c e sz off s)) = eoi_attentes s" by simp_all
qed

lemma api_write_core: "trx_core (api_write c e sz off v s) = trx_core s"
proof -
  have k: "trx_core (api_store sz off v s) = trx_core s" "trx_core (burst_written f w s) = trx_core s" "trx_core (rach_written ra s) = trx_core s"
    "trx_core (s\<lparr>dsp_page := p\<rparr>) = trx_core s" "trx_core (s\<lparr>l1log := l\<rparr>) = trx_core s" "trx_core (api_boot_written v s) = trx_core s"
    for sz off v s f w ra p l
    by (simp_all add: api_store_def burst_written_def rach_written_def api_boot_written_def split_beta Let_def) (simp_all add: trx_core_def)
  show ?thesis by (simp only: api_write_def Let_def if_distrib [of trx_core] core k if_cancel)
qed


section \<open>Bounded waiting\<close>

text \<open>The count of waits stays far from the end of its type.\<close>

definition attentes_max :: "trx_cfg \<Rightarrow> nat" where
  "attentes_max c = unat (PONT_ATTENTES_MAX c)"

lemma attentes_max_le: "attentes_max c \<le> 131072"
proof -
  have d: "1 \<le> pont_retry_div c" "pont_retry_div c \<le> 8192" by (simp_all add: pont_retry_div_def Let_def)
  then have r: "256 * pont_retry_div c div 16 = 16 * pont_retry_div c" by simp
  have "uint (PONT_ATTENTES_MAX c) = 16 * pont_retry_div c"
    using d unfolding PONT_ATTENTES_MAX_def r uint_word_of_int by (intro mod_pos_pos_trivial) simp_all
  then show ?thesis unfolding attentes_max_def using d unat_lt_uint [of "PONT_ATTENTES_MAX c" 131073] by simp
qed

lemma attentes_unat:
  "unat (PONT_ATTENTES_MAX c * 32) = 32 * attentes_max c" "unat (PONT_ATTENTES_MAX c * 64) = 64 * attentes_max c"
  using attentes_max_le [of c] unat_mult_lem [of "PONT_ATTENTES_MAX c" 32] unat_mult_lem [of "PONT_ATTENTES_MAX c" 64]
  by (simp_all add: attentes_max_def)

lemma attentes_suc:
  assumes "unat n \<le> 64 * attentes_max c"
  shows "unat (n + 1 :: u32) = unat n + 1"
  using assms attentes_max_le [of c] unat_plus_simple [of n 1] by (simp add: word_le_nat_alt unat_word_ariths)

lemma tick_wait_turn:
  assumes "tick_phase s = 1" and "unat (eoi_attentes s) \<le> 64 * attentes_max c"
  shows "tick_phase (tick_wait c e s) = 0 \<or> (tick_phase (tick_wait c e s) = 1
    \<and> unat (eoi_attentes s) < unat (eoi_attentes (tick_wait c e s)) \<and> unat (eoi_attentes (tick_wait c e s)) \<le> 64 * attentes_max c)"
proof -
  define s1 where "s1 = phase_a_step e s"
  have p: "tick_phase s1 = 1" "eoi_attentes s1 = eoi_attentes s" using assms(1) by (simp_all add: s1_def)
  have u: "unat (eoi_attentes s + 1) = unat (eoi_attentes s) + 1" using attentes_suc [OF assms(2)] .
  have u2: "unat (eoi_attentes s + 1) < 64 * attentes_max c \<Longrightarrow> unat (eoi_attentes s + 1 + 1) = unat (eoi_attentes s) + 2"
    using attentes_suc [of "eoi_attentes s + 1" c] u by simp
  show ?thesis
    using u u2 unfolding tick_wait_def Let_def s1_def [symmetric]
    by (auto simp: p word_less_nat_alt word_le_nat_alt attentes_unat attentes_max_def [symmetric])
qed

text \<open>What every reachable state has, for the configuration it runs under.\<close>

definition trx_inv :: "trx_cfg \<Rightarrow> trx \<Rightarrow> bool" where
  "trx_inv c s \<longleftrightarrow> pont_inv s \<and> unat (tfn s) < GSM_HYPERFRAME \<and> tick_phase s \<le> 1 \<and> (tick_phase s = 1 \<longrightarrow> unat (eoi_attentes s) \<le> 64 * attentes_max c)"

lemma tick_fn_less: "unat (tick_fn c e s) < GSM_HYPERFRAME"
proof -
  have "unat (w mod 2715648) < 2715648" for w :: u32 using unat_mod [of w 2715648] by simp
  then show ?thesis by (simp add: tick_fn_def)
qed

lemma tick_frame_turn:
  shows "tfn (tick_frame c e s) = tick_fn c e s" and "tdma_running (tick_frame c e s) = tdma_running s"
    and "tick_phase s = 0 \<Longrightarrow> tick_phase (tick_frame c e s) = 0 \<or> (tick_phase (tick_frame c e s) = 1 \<and> eoi_attentes (tick_frame c e s) = 0)"
  by (cases "pont s"; simp add: tick_frame_eq tick_frame_alone)+

lemma tdma_tick_turn:
  assumes "trx_inv c s"
  shows "trx_inv c (tdma_tick c e s)"
proof -
  have i: "pont_inv (tdma_tick c e s)" using assms by (simp add: trx_inv_def tdma_tick_inv)
  have w: "tfn (tick_wait c e s) = tfn s" by (simp add: tick_wait_def Let_def)
  have "unat (tfn (tdma_tick c e s)) < GSM_HYPERFRAME"
    using assms tick_fn_less by (auto simp: tdma_tick_def split_beta Let_def w tick_frame_turn(1) trx_inv_def split: option.splits)
  moreover have "tick_phase (tdma_tick c e s) \<le> 1 \<and> (tick_phase (tdma_tick c e s) = 1 \<longrightarrow> unat (eoi_attentes (tdma_tick c e s)) \<le> 64 * attentes_max c)"
  proof (cases "tick_phase s = 1")
    case True
    then show ?thesis using assms tick_wait_turn [OF True, of c e] by (auto simp: tdma_tick_def trx_inv_def)
  next
    case False
    then have z: "tick_phase s = 0" using assms by (simp add: trx_inv_def)
    have "tick_phase (tick_frame c e t) \<le> 1 \<and> (tick_phase (tick_frame c e t) = 1 \<longrightarrow> unat (eoi_attentes (tick_frame c e t)) \<le> 64 * attentes_max c)"
      if "tick_phase t = 0" for t using tick_frame_turn(3) [OF that, of c e] by auto
    then show ?thesis using z by (auto simp: tdma_tick_def split_beta Let_def split: option.splits)
  qed
  ultimately show ?thesis using i by (simp add: trx_inv_def)
qed


section \<open>Reachable states\<close>

lemma trx_inv_core: "trx_core t = trx_core s \<Longrightarrow> trx_inv c t \<longleftrightarrow> trx_inv c s"
  using pont_inv_core [of t s] by (simp add: trx_inv_def trx_coreD [of t s])

lemma core_updates [core]:
  "trx_core (s\<lparr>tdma_timer := x\<rparr>) = trx_core s" "trx_core (s\<lparr>pont_boot_timer := x\<rparr>) = trx_core s" "trx_core (s\<lparr>frame_irq_timer := x\<rparr>) = trx_core s"
  "trx_core (s\<lparr>kick_timer := x\<rparr>) = trx_core s" "trx_core (s\<lparr>halted := h\<rparr>) = trx_core s" "trx_core (s\<lparr>api_ram := r\<rparr>) = trx_core s"
  "trx_core (s\<lparr>intc := i\<rparr>) = trx_core s" "trx_core (s\<lparr>dsp_line := b\<rparr>) = trx_core s"
  by (simp_all add: trx_core_def)

lemma core_inputs [core]:
  "trx_core (frame_irq_lower e s) = trx_core s" "trx_core (cpu_kick c e s) = trx_core s" "trx_core (tpu_ram_write off v s) = trx_core s"
  "trx_core (tsp_write off v s) = trx_core s" "trx_core (snd (ulpd_read off s)) = trx_core s" "trx_core (ulpd_write off v s) = trx_core s"
  "trx_core (calypso_trx_autosync_fn f s) = trx_core s" "trx_core (calypso_trx_rach_conf f s) = trx_core s" "trx_core (calypso_trx_dcch g ss tn s) = trx_core s"
  by (simp_all add: frame_irq_lower_def cpu_kick_def tpu_ram_write_def tsp_write_def ulpd_read_def ulpd_write_def calypso_trx_autosync_fn_def
      calypso_trx_rach_conf_def calypso_trx_dcch_def Let_def core) (simp_all add: trx_core_def)

text \<open>The inputs that do not touch the protocol state.\<close>

fun quiet :: "trx_in \<Rightarrow> bool" where
  "quiet (TrxTick e) = False"
| "quiet (TrxBootTick e) = False"
| "quiet (TrxApiRead e sz off) = False"
| "quiet (TrxTpuWrite e off v) = False"
| "quiet (TrxDspReset e b) = False"
| "quiet _ = True"

lemma trx_step_quiet: "quiet i \<Longrightarrow> trx_core (trx_step c s i) = trx_core s"
  by (cases i) (simp_all add: core api_write_core)

lemma pont_reset_inv:
  assumes "trx_inv c s"
  shows "trx_inv c (calypso_trx_dsp_reset_line e b s)"
proof -
  have "pont_inv (api_put API_BL_STATUS 0 s)" using assms pont_inv_core [OF core_put] by (simp add: trx_inv_def)
  from pont_send_inv [OF this, of PONT_RESET] assms show ?thesis
    by (simp add: calypso_trx_dsp_reset_line_def Let_def trx_inv_core [OF core_updates(8)]) (simp add: trx_inv_def)
qed

lemma pont_boot_inv:
  assumes "trx_inv c s"
  shows "trx_inv c (pont_boot_tick e s)" and "trx_inv c (pont_boot_pas e s)"
  using assms pont_echange_inv [of s e] pont_boot_pas_inv [of s e]
  by (simp_all add: pont_boot_tick_def trx_inv_core [OF core_updates(2)]) (simp_all add: trx_inv_def)

lemma trx_step_inv:
  assumes "trx_inv c s"
  shows "trx_inv c (trx_step c s i)"
proof (cases i)
  case (TrxTick e)
  then show ?thesis using assms by (simp add: tdma_tick_turn trx_inv_core [OF core_updates(1)])
next
  case (TrxBootTick e)
  then show ?thesis using assms by (simp add: pont_boot_inv trx_inv_core [OF core_updates(2)])
next
  case (TrxApiRead e sz off)
  from api_read_core [of c e sz off s] show ?thesis
  proof (elim disjE conjE exE)
    fix t assume "trx_core t = trx_core s" "trx_core (snd (api_read c e sz off s)) = trx_core (pont_boot_pas e t)"
    then show ?thesis
      using assms TrxApiRead pont_boot_inv(2) [of c t e] trx_inv_core [of t s c] trx_inv_core [of "snd (api_read c e sz off s)" "pont_boot_pas e t" c] by simp
  qed (use assms TrxApiRead trx_inv_core [of "snd (api_read c e sz off s)" s c] in simp)
next
  case (TrxTpuWrite e off v)
  then show ?thesis using assms tpu_write_clock(1) [of e off v s] by (auto simp: trx_inv_def pont_inv_def)
next
  case (TrxDspReset e b)
  then show ?thesis using assms by (simp add: pont_reset_inv)
qed (subst trx_inv_core [OF trx_step_quiet], simp, rule assms)+

lemma trx_init_inv: "trx_inv c (calypso_trx_init c e b l i tm um ui q)"
  by (simp add: trx_inv_def pont_inv_def calypso_trx_init_def)

interpretation trx_dev: device trx_ok "trx_step c" "calypso_trx_init c e b l i tm um ui q" "trx_inv c" for c e b l i tm um ui q
  by unfold_locales (simp_all add: trx_init_inv trx_step_inv)

text \<open>C14. The DSP is never given a frame before it has answered the last one: in every reachable state, whatever the
  DSP, the ARM and the clocks do, between two TICKs in the log of the bridge there is a DONE received from the DSP.\<close>

theorem trx_frames_answered:
  assumes "reaches trx_ok (trx_step c) (calypso_trx_init c e b l i tm um ui q) s"
  shows "well_ticked (plog s)"
  using trx_dev.reachable_invar [OF assms] by (simp add: trx_inv_def pont_inv_def)


section \<open>Lock-step\<close>

text \<open>The bridge is up and the frame clock runs; the environment keeps the connection and takes the TICKs.\<close>

definition bridged :: "trx \<Rightarrow> bool" where
  "bridged s \<longleftrightarrow> pont s \<and> pont_fd s \<and> tdma_running s"

fun bridge_up :: "trx_in \<Rightarrow> bool" where
  "bridge_up (TrxTick e) \<longleftrightarrow> rx_msg e \<noteq> RxLost \<and> tx_ok e PONT_TICK"
| "bridge_up _ \<longleftrightarrow> True"

lemma bridged_core: "trx_core t = trx_core s \<Longrightarrow> bridged t = bridged s"
  by (simp add: bridged_def trx_coreD [of t s])

text \<open>One more frame, or none: what a step may do to the frame number and the announced frames.\<close>

definition frame_turn :: "trx \<Rightarrow> trx \<Rightarrow> bool" where
  "frame_turn s t \<longleftrightarrow> (tfn t = tfn s \<and> tick_frames (plog t) = tick_frames (plog s))
     \<or> (tfn t = (tfn s + 1) mod GSM_HYPERFRAME \<and> tick_frames (plog t) = tick_frames (plog s) @ [tfn t])"

lemma frame_turn_core: "trx_core t = trx_core s \<Longrightarrow> bridged s \<Longrightarrow> bridged t \<and> frame_turn s t"
  by (simp add: bridged_def frame_turn_def trx_coreD [of t s])

lemma tick_frame_lock:
  assumes "bridged s" and "lockstep c" and "\<not> pont_pending s" and "tx_ok e PONT_TICK"
  shows "bridged (tick_frame c e s)" and "tfn (tick_frame c e s) = (tfn s + 1) mod GSM_HYPERFRAME"
    and "tick_frames (plog (tick_frame c e s)) = tick_frames (plog s) @ [(tfn s + 1) mod GSM_HYPERFRAME]"
  using assms by (simp_all add: bridged_def tick_frame_eq pont_echange_free tick_fn_def)

lemma tick_wait_lock:
  assumes "bridged s" and "rx_msg e \<noteq> RxLost"
  shows "bridged (tick_wait c e s) \<and> tfn (tick_wait c e s) = tfn s \<and> tick_frames (plog (tick_wait c e s)) = tick_frames (plog s)"
proof -
  have "pont_fd (phase_a_collect e s)" using assms pont_recv_fd [of e s] by (simp add: bridged_def phase_a_collect_def split_beta Let_def split: option.splits)
  then have "pont_fd (phase_a_step e s)" using assms phase_a_step_core [of s e] trx_coreD(2) [of "phase_a_step e s" "phase_a_collect e s"]
    by (cases "phase_a_recue s") (simp_all add: bridged_def)
  then show ?thesis using assms(1) by (simp add: tick_wait_def Let_def bridged_def)
qed

lemma tdma_tick_lock:
  assumes "bridged s" and "lockstep c" and "rx_msg e \<noteq> RxLost" and "tx_ok e PONT_TICK"
  shows "bridged (tdma_tick c e s) \<and> frame_turn s (tdma_tick c e s)"
proof -
  have b: "bridged (snd (pont_recv e s))" "bridged (pont_collect a (snd (pont_recv e s)))" for a
    using assms(1,3) by (simp_all add: bridged_def pont_recv_fd)
  note f = tick_frame_lock [OF b(2) assms(2) _ assms(4)]
  have bc: "bridged (tdma_later c e (serve_uarts t)) = bridged t" for t by (simp add: bridged_def)
  have "pont s" "pont_fd s" using assms(1) by (simp_all add: bridged_def)
  then show ?thesis
    using assms tick_wait_lock [OF assms(1,3), of c] f b(1) tick_frame_lock [OF assms(1,2) _ assms(4)] frame_turn_core [OF core_updates(1) assms(1)]
    by (auto simp: tdma_tick_def frame_turn_def split_beta Let_def bc split: option.splits)
qed

lemma trx_step_lock:
  assumes "bridged s" and "lockstep c" and "bridge_up i"
  shows "bridged (trx_step c s i) \<and> frame_turn s (trx_step c s i)"
proof (cases i)
  case (TrxTick e)
  let ?s = "s\<lparr>tdma_timer := None\<rparr>"
  have "bridged ?s" using assms(1) by (simp add: bridged_def)
  from tdma_tick_lock [OF this assms(2), of e] show ?thesis using assms(3) TrxTick by (simp add: frame_turn_def)
next
  case (TrxBootTick e)
  then show ?thesis using assms(1) by (simp add: pont_boot_tick_def bridged_def frame_turn_def)
next
  case (TrxApiRead e sz off)
  then show ?thesis using assms(1) api_read_core [of c e sz off s] frame_turn_core [of "snd (api_read c e sz off s)" s] by (auto simp: bridged_def)
next
  case (TrxTpuWrite e off v)
  then show ?thesis using assms(1) tpu_write_clock(1) [of e off v s] tpu_write_clock(2) [of s e off v] by (auto simp: bridged_def frame_turn_def)
next
  case (TrxDspReset e b)
  then show ?thesis using assms(1) by (simp add: calypso_trx_dsp_reset_line_def Let_def bridged_def frame_turn_def)
qed (rule frame_turn_core [OF trx_step_quiet assms(1)], simp)+


lemma unat_next_frame:
  fixes x :: u32
  assumes "unat x < GSM_HYPERFRAME"
  shows "unat ((x + 1) mod GSM_HYPERFRAME) = (unat x + 1) mod GSM_HYPERFRAME"
proof -
  have "unat (x + 1) = unat x + 1" using assms by (simp add: unat_word_ariths)
  then show ?thesis using unat_mod [of "x + 1" GSM_HYPERFRAME] by simp
qed

text \<open>C2. In lock-step no frame is skipped or repeated: once the frame clock runs over a bridge that stays up, the
  frames announced to the DSP are consecutive numbers of the hyperframe, and the frame number of the ARM side is the
  last one announced, whatever else happens and however long the DSP and the ARM take.\<close>

theorem trx_lockstep_consecutive:
  assumes "reaches trx_ok (trx_step c) (calypso_trx_init c e b l i tm um ui q) s" and "bridged s" and "lockstep c"
    and "reaches (\<lambda>s i. trx_ok s i \<and> bridge_up i) (trx_step c) s t"
  shows "\<exists>n. map unat (tick_frames (plog t)) = map unat (tick_frames (plog s)) @ map (\<lambda>k. (unat (tfn s) + k) mod GSM_HYPERFRAME) [1..<Suc n]
    \<and> unat (tfn t) = (unat (tfn s) + n) mod GSM_HYPERFRAME"
proof -
  have f: "unat (tfn s) < GSM_HYPERFRAME" using trx_dev.reachable_invar [OF assms(1)] by (simp add: trx_inv_def)
  let ?P = "\<lambda>t n. map unat (tick_frames (plog t)) = map unat (tick_frames (plog s)) @ map (\<lambda>k. (unat (tfn s) + k) mod GSM_HYPERFRAME) [1..<Suc n]
    \<and> unat (tfn t) = (unat (tfn s) + n) mod GSM_HYPERFRAME"
  have "bridged t \<and> (\<exists>n. ?P t n)" using assms(4)
  proof (induction rule: reaches.induct)
    case reaches_refl
    have "?P s 0" using f by simp
    then show ?case using assms(2) by blast
  next
    case (reaches_step t i)
    then obtain n where n: "?P t n" and b: "bridged t" by blast
    let ?u = "trx_step c t i"
    have u: "bridged ?u" "frame_turn t ?u" using trx_step_lock [OF b assms(3)] reaches_step by simp_all
    have "unat (tfn t) < GSM_HYPERFRAME" using n by simp
    then have x: "unat ((tfn t + 1) mod GSM_HYPERFRAME) = (unat (tfn s) + Suc n) mod GSM_HYPERFRAME"
      using n by (simp add: unat_next_frame mod_Suc_eq)
    from u(2) consider "tfn ?u = tfn t" "tick_frames (plog ?u) = tick_frames (plog t)"
      | "tfn ?u = (tfn t + 1) mod GSM_HYPERFRAME" "tick_frames (plog ?u) = tick_frames (plog t) @ [tfn ?u]"
      by (auto simp: frame_turn_def)
    then have "\<exists>m. ?P ?u m"
    proof cases
      case 1
      then show ?thesis using n by auto
    next
      case 2
      then have "?P ?u (Suc n)" using n x by simp
      then show ?thesis by blast
    qed
    then show ?case using u(1) by blast
  qed
  then show ?thesis by blast
qed

section \<open>No deadlock within a frame\<close>

fun live_tick :: "trx_in \<Rightarrow> bool" where
  "live_tick (TrxTick e) \<longleftrightarrow> vm_running e"
| "live_tick _ \<longleftrightarrow> False"

lemma trx_step_phase:
  assumes "trx_inv c s" and "tick_phase s = 1"
  shows "tick_phase (trx_step c s i) = 0 \<or> (tick_phase (trx_step c s i) = 1
    \<and> unat (eoi_attentes s) + (if live_tick i then 1 else 0) \<le> unat (eoi_attentes (trx_step c s i)))"
proof (cases i)
  case (TrxTick e)
  let ?s = "s\<lparr>tdma_timer := None\<rparr>"
  have "tick_phase ?s = 1" "unat (eoi_attentes ?s) \<le> 64 * attentes_max c" using assms by (simp_all add: trx_inv_def)
  from tick_wait_turn [OF this, of e] show ?thesis using TrxTick assms(2) by (auto simp: tdma_tick_def)
next
  case (TrxApiRead e sz off)
  then show ?thesis using assms(2) api_read_phase [of c e sz off s] by simp
next
  case (TrxBootTick e)
  then show ?thesis using assms(2) by (simp add: pont_boot_tick_def)
next
  case (TrxDspReset e b)
  then show ?thesis using assms(2) by (simp add: calypso_trx_dsp_reset_line_def Let_def)
next
  case (TrxTpuWrite e off v)
  then show ?thesis using assms(2) by simp
qed (use assms(2) trx_coreD(7,8) [OF trx_step_quiet, of i c s] in simp)+

lemma phase_waits:
  assumes "trx_inv c s" and "tick_phase s = 1" and "\<forall>k \<le> length ins. tick_phase (foldl (trx_step c) s (take k ins)) \<noteq> 0"
  shows "unat (eoi_attentes s) + length (filter live_tick ins) \<le> 64 * attentes_max c"
  using assms
proof (induction ins arbitrary: s)
  case Nil
  then show ?case by (simp add: trx_inv_def)
next
  case (Cons i ins)
  let ?s = "trx_step c s i"
  have k: "\<forall>k \<le> length ins. tick_phase (foldl (trx_step c) ?s (take k ins)) \<noteq> 0"
    using Cons.prems(3) [rule_format, of "Suc _"] by simp
  then have "tick_phase ?s \<noteq> 0" by (metis bot_nat_0.extremum foldl_Nil take0)
  then have p: "tick_phase ?s = 1" "unat (eoi_attentes s) + (if live_tick i then 1 else 0) \<le> unat (eoi_attentes ?s)"
    using trx_step_phase [OF Cons.prems(1,2), of i] by auto
  from Cons.IH [OF trx_step_inv [OF Cons.prems(1)] p(1) k] p(2) show ?case by (auto split: if_splits)
qed

text \<open>C6. The bridge cannot deadlock within a frame: from any reachable state in the second phase of a frame, a
  sequence of inputs with more than 64 times the configured number of waits of frame ticks ends the phase, whatever
  the ARM and the DSP do or fail to do meanwhile.\<close>

theorem trx_phase_ends:
  assumes "reaches trx_ok (trx_step c) (calypso_trx_init c e b l i tm um ui q) s" and "tick_phase s = 1"
    and "64 * attentes_max c < length (filter live_tick ins)"
  shows "\<exists>k \<le> length ins. tick_phase (foldl (trx_step c) s (take k ins)) = 0"
  using phase_waits [OF trx_dev.reachable_invar [OF assms(1)] assms(2), of ins] assms(3) by fastforce

section \<open>The ARM's part of a frame\<close>

lemma inth_update_keeps [simp]:
  "levels (calypso_inth_update i) = levels i" "imask (calypso_inth_update i) = imask i" "frame_eoi (calypso_inth_update i) = frame_eoi i"
  "last_num (calypso_inth_update i) = last_num i"
  by (simp_all add: calypso_inth_update_def Let_def split_beta split: option.splits)

lemma inth_line_keeps:
  "imask (calypso_inth_set_irq i n b) = imask i" "frame_eoi (calypso_inth_set_irq i n b) = frame_eoi i"
  "n \<noteq> 4 \<Longrightarrow> bit (levels (calypso_inth_set_irq i n b)) 4 = bit (levels i) 4" "bit (levels (calypso_inth_set_irq i 4 True)) 4"
  by (simp_all add: calypso_inth_set_irq_def bit_set_bit_iff bit_unset_bit_iff)

lemma uart_wire_keeps:
  assumes "n \<noteq> 4"
  shows "imask (uart_wire n u v i) = imask i \<and> frame_eoi (uart_wire n u v i) = frame_eoi i \<and> bit (levels (uart_wire n u v i)) 4 = bit (levels i) 4"
proof -
  have "imask (fold (\<lambda>e i. case e of UIrq b \<Rightarrow> calypso_inth_set_irq i n b | _ \<Rightarrow> i) es i) = imask i
    \<and> frame_eoi (fold (\<lambda>e i. case e of UIrq b \<Rightarrow> calypso_inth_set_irq i n b | _ \<Rightarrow> i) es i) = frame_eoi i
    \<and> bit (levels (fold (\<lambda>e i. case e of UIrq b \<Rightarrow> calypso_inth_set_irq i n b | _ \<Rightarrow> i) es i)) 4 = bit (levels i) 4" for es
    by (induction es arbitrary: i) (auto simp: inth_line_keeps assms split: uart_ev.splits)
  then show ?thesis by (simp add: uart_wire_def)
qed

lemma serve_uarts_keeps [simp]:
  "imask (intc (serve_uarts s)) = imask (intc s)" "frame_eoi (intc (serve_uarts s)) = frame_eoi (intc s)"
  "bit (levels (intc (serve_uarts s))) 4 = bit (levels (intc s)) 4" "eoi_cible (serve_uarts s) = eoi_cible s"
  using uart_wire_keeps [of 7] uart_wire_keeps [of 18]
  by (simp_all add: serve_uarts_def serve_irda_def serve_modem_def split: option.splits)







section \<open>A frame, run\<close>

definition demo_start :: trx where
  "demo_start = trx_step demo_cfg (demo_init (\<lambda>_. 0)) (TrxTpuWrite (demo_env RxNone) 0x02 0)"

definition demo_asked :: trx where
  "demo_asked = trx_step demo_cfg demo_start (TrxTick (demo_env RxNone))"

definition demo_answered :: trx where
  "demo_answered = trx_step demo_cfg demo_asked (TrxTick (demo_env (RxMsg PONT_DONE 16)))"

lemmas demo_defs = demo_cfg_def demo_env_def demo_init_def demo_start_def demo_asked_def demo_answered_def calypso_trx_init_def tpu_write_def
  tdma_start_def tdma_tick_def tick_frame_def tick_serve_def tick_end_def tick_fn_def pont_echange_def pont_tick_out_def pont_tick_b_def
  pont_send_def serve_uarts_def serve_modem_def serve_irda_def seq_on_regs_def calypso_tpu_sequencer_tick_def tpu_init_def tdma_later_def
  arm_first_def

lemma demo_start_fields:
  "bridged demo_start" "tick_phase demo_start = 0" "tfn demo_start = 0" "plog demo_start = []" "tdma_timer demo_start = Some GSM_TDMA_NS"
  by (simp_all add: demo_defs bridged_def)

lemma demo_asked_fields:
  "bridged demo_asked" "tick_phase demo_asked = 1" "tfn demo_asked = 1" "plog demo_asked = [PSent PONT_TICK 1 0x20000 0]" "\<not> phase_a_recue demo_asked"
  "\<not> go_inutile demo_asked" "intc demo_asked = inth_init" "eoi_cible demo_asked = 0" "eoi_attentes demo_asked = 0" "tdma_timer demo_asked \<noteq> None"
  by (simp_all add: demo_defs bridged_def Let_def)

lemma demo_reaches:
  "reaches trx_ok (trx_step demo_cfg) (demo_init (\<lambda>_. 0)) demo_start" "reaches (\<lambda>s i. trx_ok s i \<and> bridge_up i) (trx_step demo_cfg) demo_start demo_asked"
  "reaches trx_ok (trx_step demo_cfg) (demo_init (\<lambda>_. 0)) demo_asked"
proof -
  have b: "bridge_up (TrxTick (demo_env RxNone))" by (simp add: demo_env_def)
  show "reaches trx_ok (trx_step demo_cfg) (demo_init (\<lambda>_. 0)) demo_start"
    by (rule run_reaches [where ins = "[TrxTpuWrite (demo_env RxNone) 0x02 0]"]) (simp add: demo_start_def)
  show "reaches (\<lambda>s i. trx_ok s i \<and> bridge_up i) (trx_step demo_cfg) demo_start demo_asked"
    by (rule run_reaches [where ins = "[TrxTick (demo_env RxNone)]"]) (simp add: demo_asked_def demo_start_fields b del: trx_step.simps bridge_up.simps)
  show "reaches trx_ok (trx_step demo_cfg) (demo_init (\<lambda>_. 0)) demo_asked"
    by (rule run_reaches [where ins = "[TrxTpuWrite (demo_env RxNone) 0x02 0, TrxTick (demo_env RxNone)]"])
      (simp add: demo_asked_def demo_start_fields demo_start_def [symmetric] del: trx_step.simps)
qed


text \<open>Two frames in one phase: the bridge is started, the first tick announces frame 1, and the tick that finds the
  answer of the DSP announces frame 2.\<close>

definition pair_cfg :: trx_cfg where
  "pair_cfg = demo_cfg\<lparr>arm_first_off := True\<rparr>"

definition pair_init :: trx where
  "pair_init = calypso_trx_init pair_cfg (demo_env RxNone) (Some (\<lambda>_. 0)) False inth_init timer_init None None tpu_init"

definition pair_asked :: trx where
  "pair_asked = trx_step pair_cfg (trx_step pair_cfg pair_init (TrxTpuWrite (demo_env RxNone) 0x02 0)) (TrxTick (demo_env RxNone))"

definition pair_next :: trx where
  "pair_next = trx_step pair_cfg pair_asked (TrxTick (demo_env (RxMsg PONT_DONE 0)))"

lemma tdma_pacer_eq:
  "tdma_pacer c e s = s\<lparr>pacer_target := pacer_next (rattrapage c) (rt e) (pacer_target s),
     tdma_timer := Some (pacer_next (rattrapage c) (rt e) (pacer_target s))\<rparr>"
  by (simp add: tdma_pacer_def Let_def)

lemmas pair_defs = demo_defs pair_cfg_def pair_init_def pair_asked_def pair_next_def frame_irq_def irq_raise_def tdma_pacer_eq pont_recv_def
  pont_collect_def done_flags_def

lemma pair_timers: "tdma_timer (trx_step pair_cfg pair_init (TrxTpuWrite (demo_env RxNone) 0x02 0)) \<noteq> None" "tdma_timer pair_asked \<noteq> None"
  by (simp_all add: pair_defs)

lemma pair_next_log: "plog pair_next = [PSent PONT_TICK 1 0 0, PRecv PONT_DONE 0, PSent PONT_TICK 2 0 0]"
  by (simp add: pair_defs)

lemma pair_next_reaches: "reaches trx_ok (trx_step pair_cfg) pair_init pair_next"
  by (rule run_reaches [where ins = "[TrxTpuWrite (demo_env RxNone) 0x02 0, TrxTick (demo_env RxNone), TrxTick (demo_env (RxMsg PONT_DONE 0))]"])
    (simp add: pair_timers pair_next_def pair_asked_def [symmetric] del: trx_step.simps)

theorem trx_frames_answered_witness:
  "plog pair_next = [PSent PONT_TICK 1 0 0, PRecv PONT_DONE 0, PSent PONT_TICK 2 0 0] \<and> well_ticked (plog pair_next)"
  using trx_frames_answered [OF pair_next_reaches [unfolded pair_init_def]] pair_next_log by simp

theorem trx_lockstep_consecutive_witness:
  "\<exists>n. map unat (tick_frames (plog demo_asked)) = map unat (tick_frames (plog demo_start)) @ map (\<lambda>k. (unat (tfn demo_start) + k) mod GSM_HYPERFRAME) [1..<Suc n]
    \<and> unat (tfn demo_asked) = (unat (tfn demo_start) + n) mod GSM_HYPERFRAME"
  by (rule trx_lockstep_consecutive [OF demo_reaches(1) [unfolded demo_init_def] demo_start_fields(1) _ demo_reaches(2)]) (simp add: demo_cfg_def)

theorem trx_phase_ends_witness:
  "\<exists>k \<le> length (replicate 1025 (TrxTick (demo_env RxNone))).
     tick_phase (foldl (trx_step demo_cfg) demo_asked (take k (replicate 1025 (TrxTick (demo_env RxNone))))) = 0"
proof (rule trx_phase_ends [OF demo_reaches(3) [unfolded demo_init_def] demo_asked_fields(2)])
  show "64 * attentes_max demo_cfg < length (filter live_tick (replicate 1025 (TrxTick (demo_env RxNone))))"
    by (simp add: attentes_max_def PONT_ATTENTES_MAX_def pont_retry_div_def demo_cfg_def demo_env_def filter_replicate)
qed


end
