(* ===== verification/A5.thy ===== *)
theory A5
  imports Trx_Clock
begin

text \<open>
  The A5 coprocessor of \<open>hw/arm/calypso/l1-dsp/calypso_a5.c\<close> on the I/O bus of the DSP: the ports for Kc, COUNT and
  control, the computation of the key stream, and the ports that return it.

  The cipher is libosmocore's \<open>osmo_a5\<close>, an argument: the downlink and the uplink stream of an algorithm, a key
  and a frame, or nothing for its error return. What the coprocessor takes from the rest of the DSP (the last
  frame deposited by the BSP, the frame the BSP plays at this tick, the interrupt flag register) and the
  environment variables are arguments too. The counters and histograms of the log are left out, except
  the ones of the state.
\<close>

unbundle bit_operations_syntax

type_synonym cipher = "nat \<Rightarrow> u8 list \<Rightarrow> u32 \<Rightarrow> (u8 list \<times> u8 list) option"

abbreviation (input) A5_PA_CTRL :: u16 where "A5_PA_CTRL \<equiv> 0x2800"
abbreviation (input) A5_PA_TRACE :: u16 where "A5_PA_TRACE \<equiv> 0x2801"
abbreviation (input) A5_PA_ETAT :: u16 where "A5_PA_ETAT \<equiv> 0x2802"
abbreviation (input) A5_PA_KC0 :: u16 where "A5_PA_KC0 \<equiv> 0x2803"
abbreviation (input) A5_PA_CNT0 :: u16 where "A5_PA_CNT0 \<equiv> 0x2807"
abbreviation (input) A5_PA_CNT1 :: u16 where "A5_PA_CNT1 \<equiv> 0x2808"
abbreviation (input) A5_PA_FLUX0 :: u16 where "A5_PA_FLUX0 \<equiv> 0x2809"
abbreviation (input) A5_N_FLUX :: nat where "A5_N_FLUX \<equiv> 16"
abbreviation (input) A5_IT_BIT :: nat where "A5_IT_BIT \<equiv> 11"

record a5 =
  actrl :: u16
  akc :: "u16 list"
  acnt :: "u16 list"
  etat :: u16
  flux :: "u16 list"
  n_calculs :: u64
  n_recales :: u64
  n_dl_bsp :: u64
  dernier_fn :: u32
  dernier_algo :: nat
  ifr :: u16

text \<open>The switches and what the BSP says: \<open>last_fn\<close> is \<open>calypso_daram_last_fn\<close>, \<open>bsp_fn\<close> the answer of \<open>calypso_bsp_fn_bts_du_tick\<close>.\<close>

record a5_env =
  a5_on :: bool
  recale :: bool
  dl_bsp :: bool
  dl_decal :: int
  last_fn :: u32
  bsp_fn :: "u32 option"

definition a5_init :: a5 where
  "a5_init = \<lparr>actrl = 0, akc = replicate 4 0, acnt = replicate 2 0, etat = 0, flux = replicate A5_N_FLUX 0, n_calculs = 0, n_recales = 0,
     n_dl_bsp = 0, dernier_fn = 0, dernier_algo = 0, ifr = 0\<rparr>"

definition calypso_a5_dernier :: "a5_env \<Rightarrow> a5 \<Rightarrow> u32 option" where
  "calypso_a5_dernier e s = (if \<not> a5_on e \<or> dernier_algo s = 0 then None else Some (dernier_fn s))"

definition pack_bit :: "u8 list \<Rightarrow> nat \<Rightarrow> u16 list \<Rightarrow> u16 list" where
  "pack_bit b i w = (if b ! i \<noteq> 0 then w[i div 16 := (w ! (i div 16)) OR drop_bit (i mod 16) 0x8000] else w)"

definition empaqueter :: "u8 list \<Rightarrow> u16 list" where
  "empaqueter b = fold (pack_bit b) [0..<114] (replicate 8 0)"

definition a5_key :: "u16 list \<Rightarrow> u8 list" where
  "a5_key kc = fold (\<lambda>i k. k[7 - 2 * i := ucast (kc ! i AND 0xFF), 6 - 2 * i := ucast (drop_bit 8 (kc ! i))]) [0..<4] (replicate 8 0)"

text \<open>COUNT as a frame number: T2 and T3 in the first word, T1 in the second.\<close>

definition a5_count :: "u16 list \<Rightarrow> u32" where
  "a5_count cnt =
     (let t2 = uint (cnt ! 0 AND 0x1F); t3 = uint (drop_bit 5 (cnt ! 0) AND 0x3F); t1 = uint (cnt ! 1 AND 0x7FF)
      in word_of_int (51 * 26 * t1 + 51 * ((t3 - t2 + 26 * 3) mod 26) + t3))"

definition a5_recale :: "a5_env \<Rightarrow> u32 \<Rightarrow> bool" where
  "a5_recale e f \<longleftrightarrow> recale e \<and> f = last_fn e \<and> (f mod 26 = 12 \<or> f mod 26 = 25)"

text \<open>The frame of the downlink stream: that of the burst the BSP plays, when it is within three frames of COUNT.\<close>

definition a5_fn_dl :: "a5_env \<Rightarrow> u32 \<Rightarrow> u32 option" where
  "a5_fn_dl e f =
     (case (if dl_bsp e then bsp_fn e else None) of
        None \<Rightarrow> None
      | Some ft \<Rightarrow> let d = sint ft - sint f in if -3 \<le> d \<and> d \<le> 3 \<and> d \<noteq> 0 then Some (word_of_int (sint ft + dl_decal e)) else None)"

definition a5_calculer :: "cipher \<Rightarrow> a5_env \<Rightarrow> nat \<Rightarrow> a5 \<Rightarrow> a5" where
  "a5_calculer osmo_a5 e algo s =
     (let key = a5_key (akc s);
          f0 = a5_count (acnt s);
          f = (if a5_recale e f0 then (f0 + 1) mod 2715648 else f0);
          s1 = (if a5_recale e f0 then s\<lparr>n_recales := n_recales s + 1\<rparr> else s);
          s2 = (if a5_fn_dl e f \<noteq> None then s1\<lparr>n_dl_bsp := n_dl_bsp s1 + 1\<rparr> else s1);
          f_dl = (case a5_fn_dl e f of Some g \<Rightarrow> g | None \<Rightarrow> f);
          s3 = (case osmo_a5 algo key f of
                  None \<Rightarrow> s2\<lparr>flux := replicate A5_N_FLUX 0\<rparr>
                | Some (dl, ul) \<Rightarrow>
                    let dl = (if f_dl \<noteq> f then (case osmo_a5 algo key f_dl of Some (dl2, _) \<Rightarrow> dl2 | None \<Rightarrow> dl) else dl)
                    in s2\<lparr>flux := empaqueter dl @ empaqueter ul, dernier_fn := f, dernier_algo := algo\<rparr>)
      in s3\<lparr>etat := set_bit 0 (etat s3), n_calculs := n_calculs s3 + 1, ifr := set_bit A5_IT_BIT (ifr s3)\<rparr>)"

definition calypso_a5_portw :: "cipher \<Rightarrow> a5_env \<Rightarrow> u16 \<Rightarrow> u16 \<Rightarrow> a5 \<Rightarrow> bool \<times> a5" where
  "calypso_a5_portw osmo_a5 e pa val s =
     (if \<not> a5_on e \<or> pa < A5_PA_CTRL \<or> pa > A5_PA_CNT1 then (False, s)
      else if pa = A5_PA_CTRL then
        (let s1 = s\<lparr>actrl := val\<rparr>
         in (True,
             if val = 0 then s1\<lparr>etat := 0\<rparr>
             else if bit val 0 \<and> \<not> bit (actrl s) 0 then
               (let algo = unat (drop_bit 2 val AND 3)
                in if algo = 1 \<or> algo = 2 then a5_calculer osmo_a5 e algo s1
                   else s1\<lparr>flux := replicate A5_N_FLUX 0, etat := set_bit 0 (etat s1), ifr := set_bit A5_IT_BIT (ifr s1)\<rparr>)
             else s1))
      else if pa = A5_PA_CNT0 then (True, s\<lparr>acnt := (acnt s)[0 := val]\<rparr>)
      else if pa = A5_PA_CNT1 then (True, s\<lparr>acnt := (acnt s)[1 := val]\<rparr>)
      else if pa = A5_PA_TRACE \<or> pa = A5_PA_ETAT then (True, s)
      else (True, s\<lparr>akc := (akc s)[unat (pa - A5_PA_KC0) := val]\<rparr>))"

definition calypso_a5_portr :: "a5_env \<Rightarrow> u16 \<Rightarrow> a5 \<Rightarrow> u16 option" where
  "calypso_a5_portr e pa s =
     (if \<not> a5_on e \<or> pa < A5_PA_CTRL \<or> pa \<ge> A5_PA_FLUX0 + 16 then None
      else if pa \<ge> A5_PA_FLUX0 then Some (flux s ! unat (pa - A5_PA_FLUX0))
      else if pa = A5_PA_ETAT then Some (etat s)
      else if pa = A5_PA_CTRL then Some (actrl s)
      else if pa = A5_PA_TRACE then Some 0
      else if pa \<le> A5_PA_KC0 + 3 then Some (akc s ! unat (pa - A5_PA_KC0))
      else Some (acnt s ! unat (pa - A5_PA_CNT0)))"

section \<open>A session of the ROM\<close>

text \<open>
  What the mask ROM does for a frame (0xb12c): stop, Kc as the firmware lays it out, COUNT, mode, start; then it reads the
  streams word by word (0xb19d) and takes their bits from bit 15 on.
\<close>

definition a_kc :: "u8 list \<Rightarrow> nat \<Rightarrow> u16" where
  "a_kc key i = ucast (key ! (7 - 2 * i)) OR push_bit 8 (ucast (key ! (6 - 2 * i)))"

definition a_a5fn :: "u32 \<Rightarrow> u16 \<times> u16" where
  "a_a5fn f = (push_bit 5 (ucast (f mod 51)) OR ucast (f mod 26), ucast (f div 1326))"

definition a5_program :: "u8 list \<Rightarrow> u32 \<Rightarrow> u16 \<Rightarrow> (u16 \<times> u16) list" where
  "a5_program key f mode =
     [(0x2800, 0), (0x2803, a_kc key 0), (0x2804, a_kc key 1), (0x2805, a_kc key 2), (0x2806, a_kc key 3),
      (0x2807, fst (a_a5fn f)), (0x2808, snd (a_a5fn f)), (0x2800, push_bit 2 mode OR 0x12), (0x2800, push_bit 2 mode OR 0x13)]"

definition a5_run :: "cipher \<Rightarrow> a5_env \<Rightarrow> (u16 \<times> u16) list \<Rightarrow> a5 \<Rightarrow> a5" where
  "a5_run osmo_a5 e ws s = fold (\<lambda>(pa, v) s. snd (calypso_a5_portw osmo_a5 e pa v s)) ws s"

definition a5_stream :: "a5_env \<Rightarrow> u16 \<Rightarrow> a5 \<Rightarrow> bool list" where
  "a5_stream e pa0 s =
     map (\<lambda>i. case calypso_a5_portr e (pa0 + of_nat (i div 16)) s of Some w \<Rightarrow> bit w (15 - i mod 16) | None \<Rightarrow> False) [0..<114]"


lemma bit_8000: "bit (0x8000 :: u16) k \<longleftrightarrow> k = 15"
  using bit_push_bit_iff [of 15 "1 :: u16" k] by (auto simp: bit_1_iff)

lemma length_pack_bit [simp]: "length (pack_bit b n w) = length w"
  by (simp add: pack_bit_def)

lemma pack_bit_bits:
  assumes "length w = 8" and "n < 128" and "j < 128"
  shows "bit (pack_bit b n w ! (j div 16)) (15 - j mod 16) \<longleftrightarrow> bit (w ! (j div 16)) (15 - j mod 16) \<or> (j = n \<and> b ! n \<noteq> 0)"
proof -
  have "n mod 16 + (15 - j mod 16) = 15 \<longleftrightarrow> n mod 16 = j mod 16" using mod_less_divisor [of 16 j] by auto
  then have m: "bit (drop_bit (n mod 16) (0x8000 :: u16)) (15 - j mod 16) \<longleftrightarrow> n mod 16 = j mod 16" by (simp only: bit_drop_bit_eq o_def bit_8000)
  have d: "n = j \<longleftrightarrow> n div 16 = j div 16 \<and> n mod 16 = j mod 16" by (metis div_mod_decomp)
  have i: "n div 16 < 8" "j div 16 < 8" using assms by auto
  show "bit (pack_bit b n w ! (j div 16)) (15 - j mod 16) \<longleftrightarrow> bit (w ! (j div 16)) (15 - j mod 16) \<or> (j = n \<and> b ! n \<noteq> 0)"
  proof (cases "n div 16 = j div 16")
    case True
    then show ?thesis using m d i assms(1) by (auto simp: pack_bit_def bit_or_iff simp del: bit_drop_bit_eq)
  next
    case False
    then show ?thesis using d assms(1) by (auto simp: pack_bit_def)
  qed
qed

lemma pack_bits:
  assumes "n \<le> 114"
  shows "length (fold (pack_bit b) [0..<n] (replicate 8 0)) = 8"
    and "j < 128 \<Longrightarrow> bit (fold (pack_bit b) [0..<n] (replicate 8 0) ! (j div 16)) (15 - j mod 16) \<longleftrightarrow> j < n \<and> b ! j \<noteq> 0"
  using assms by (induction n) (auto simp: pack_bit_bits less_Suc_eq less_mult_imp_div_less)

lemma empaqueter_bits: "length (empaqueter b) = 8" "j < 114 \<Longrightarrow> bit (empaqueter b ! (j div 16)) (15 - j mod 16) \<longleftrightarrow> b ! j \<noteq> 0"
  using pack_bits [where n = 114 and b = b] by (simp_all add: empaqueter_def)

lemma ucast_low_byte: "ucast (w AND 0xFF) = (ucast w :: u8)" for w :: u16
proof -
  have "(0xFF :: u16) = mask 8" by (simp add: mask_eq_exp_minus_1)
  then show ?thesis by (auto simp: word_eq_bits bit_simps)
qed

lemma a_kc_bytes: "ucast (a_kc key i AND 0xFF) = key ! (7 - 2 * i)" "ucast (drop_bit 8 (a_kc key i)) = key ! (6 - 2 * i)"
  unfolding a_kc_def ucast_low_byte by (rule byte_pair)+

lemma a5_key_a_kc:
  assumes "length key = 8"
  shows "a5_key (map (a_kc key) [0..<4]) = key"
proof -
  have u: "[0..<4] = [0, 1, 2, 3 :: nat]" by (simp add: upt_rec)
  obtain k0 k1 k2 k3 k4 k5 k6 k7 where "key = [k0, k1, k2, k3, k4, k5, k6, k7]"
    using assms by (auto simp: length_Suc_conv numeral_eq_Suc)
  then show ?thesis by (simp add: a5_key_def u a_kc_bytes) (simp add: numeral_eq_Suc)
qed

lemma a5_count_fields:
  fixes a b :: u16
  assumes "uint a < 64" and "uint b < 32"
  shows "(push_bit 5 a OR b) AND 0x1F = b" and "drop_bit 5 (push_bit 5 a OR b) AND 0x3F = a"
proof -
  have "unat a < 64" "unat b < 32" using assms by (simp_all add: unat_lt_uint)
  then have a: "n < 6" if "bit a n" for n using bit_above_lt [of a 6 n] that by (simp add: not_le [symmetric]) blast
  have b: "n < 5" if "bit b n" for n using bit_above_lt [of b 5 n] \<open>unat b < 32\<close> that by (simp add: not_le [symmetric]) blast
  show "(push_bit 5 a OR b) AND 0x1F = b" unfolding mask_take_bit by (auto simp: word_eq_bits bit_simps dest: b)
  show "drop_bit 5 (push_bit 5 a OR b) AND 0x3F = a" unfolding mask_take_bit by (auto simp: word_eq_bits bit_simps dest: a b)
qed

lemma a5_count_frame:
  assumes "uint f < 2715648"
  shows "a5_count [fst (a_a5fn f), snd (a_a5fn f)] = f"
proof -
  have u: "uint (f mod 51) = uint f mod 51" "uint (f mod 26) = uint f mod 26" "uint (f div 1326) = uint f div 1326"
    by (simp_all only: uint_div uint_mod) simp_all
  have t1: "uint f div 1326 < 2048" using assms by (simp add: div_less_iff_less_mult)
  have c: "uint (ucast (f mod 51) :: u16) = uint f mod 51" "uint (ucast (f mod 26) :: u16) = uint f mod 26"
    using u pos_mod_bound [of 51 "uint f"] pos_mod_bound [of 26 "uint f"] by (simp_all add: uint_ucast_small del: pos_mod_bound)
  have c1: "uint (ucast (f div 1326) :: u16) = uint f div 1326" using u t1 by (simp add: uint_ucast_small)
  have m: "ucast (f div 1326) AND (0x7FF :: u16) = ucast (f div 1326)"
  proof -
    have "unat (ucast (f div 1326) :: u16) < 2048" using c1 t1 by (simp add: unat_lt_uint)
    then have "n < 11" if "bit (ucast (f div 1326) :: u16) n" for n
      using bit_above_lt [of "ucast (f div 1326) :: u16" 11 n] that by (simp add: not_le [symmetric]) blast
    moreover have "(0x7FF :: u16) = mask 11" by (simp add: mask_eq_exp_minus_1)
    ultimately show ?thesis by (auto simp: word_eq_bits bit_and_iff bit_mask_iff)
  qed
  have "uint (ucast (f mod 51) :: u16) < 64" "uint (ucast (f mod 26) :: u16) < 32"
    using pos_mod_bound [of 51 "uint f"] pos_mod_bound [of 26 "uint f"] unfolding c by linarith+
  note p = a5_count_fields [OF this]
  have "a5_count [fst (a_a5fn f), snd (a_a5fn f)] = word_of_int (gsm_time_fn (uint f div 1326) (uint f mod 26) (uint f mod 51))"
    unfolding a5_count_def a_a5fn_def Let_def gsm_time_fn_def by (simp only: fst_conv snd_conv nth_Cons_0 nth_Cons_Suc One_nat_def p m c c1)
  then show ?thesis using gsm_time_fn_inverse [of "uint f"] by simp
qed

lemma a5_session_end:
  assumes "a5_on e" and "length (akc s) = 4" and "length (acnt s) = 2" and "mode = 1 \<or> mode = 2"
  shows "a5_run osmo_a5 e (a5_program key f mode) s = a5_calculer osmo_a5 e (unat mode)
    (s\<lparr>etat := 0, akc := map (a_kc key) [0..<4], acnt := [fst (a_a5fn f), snd (a_a5fn f)], actrl := push_bit 2 mode OR 0x13\<rparr>)"
proof -
  obtain k0 k1 k2 k3 c0 c1 where k: "akc s = [k0, k1, k2, k3]" "acnt s = [c0, c1]"
    using assms(2,3) by (auto simp: length_Suc_conv numeral_eq_Suc)
  have u: "[0..<4] = [0, 1, 2, 3 :: nat]" by (simp add: upt_rec)
  show ?thesis
    using assms(1,4) by (auto simp: a5_run_def a5_program_def calypso_a5_portw_def Let_def k u)
qed

text \<open>What libosmocore documents of A5/1 and A5/2: they are available, and give 114 bits in each direction.\<close>

definition cipher_ok :: "cipher \<Rightarrow> bool" where
  "cipher_ok osmo_a5 \<longleftrightarrow> (\<forall>algo key f. (algo = 1 \<or> algo = 2) \<longrightarrow> (\<exists>dl ul. osmo_a5 algo key f = Some (dl, ul) \<and> length dl = 114 \<and> length ul = 114))"

text \<open>The frames of the two streams of a session.\<close>

definition a5_fn :: "a5_env \<Rightarrow> u32 \<Rightarrow> u32" where
  "a5_fn e f = (if a5_recale e f then (f + 1) mod 2715648 else f)"

definition a5_dl_fn :: "a5_env \<Rightarrow> u32 \<Rightarrow> u32" where
  "a5_dl_fn e f = (case a5_fn_dl e (a5_fn e f) of Some g \<Rightarrow> g | None \<Rightarrow> a5_fn e f)"

lemma a5_stream_flux:
  assumes "a5_on e" and "flux s = empaqueter dl @ empaqueter ul" and "length dl = 114" and "length ul = 114"
  shows "a5_stream e 0x2809 s = map (\<lambda>b. b \<noteq> 0) dl" and "a5_stream e 0x2811 s = map (\<lambda>b. b \<noteq> 0) ul"
proof -
  have r: "calypso_a5_portr e (0x2809 + of_nat k) s = Some (flux s ! k)" if "k < 16" for k
  proof -
    have "unat (of_nat k :: u16) = k" using that by (simp add: unat_of_nat)
    moreover from this have "unat (0x2809 + of_nat k :: u16) = 0x2809 + k" using that by (simp add: unat_word_ariths)
    ultimately show ?thesis using assms(1) that by (simp add: calypso_a5_portr_def word_less_nat_alt word_le_nat_alt)
  qed
  have "calypso_a5_portr e (0x2811 + of_nat k) s = Some (flux s ! (8 + k))" if "k < 8" for k
  proof -
    have "(0x2811 + of_nat k :: u16) = 0x2809 + of_nat (8 + k)" by simp
    then show ?thesis using r [of "8 + k"] that by (simp only:)
  qed
  with r have s: "i < 114 \<Longrightarrow> calypso_a5_portr e (0x2809 + of_nat (i div 16)) s = Some (empaqueter dl ! (i div 16))"
    "i < 114 \<Longrightarrow> calypso_a5_portr e (0x2811 + of_nat (i div 16)) s = Some (empaqueter ul ! (i div 16))" for i
    using less_mult_imp_div_less [of i 8 16] by (simp_all add: assms(2) nth_append empaqueter_bits(1))
  show "a5_stream e 0x2809 s = map (\<lambda>b. b \<noteq> 0) dl" "a5_stream e 0x2811 s = map (\<lambda>b. b \<noteq> 0) ul"
    unfolding a5_stream_def by (rule nth_equalityI; simp add: assms(3,4) s empaqueter_bits)+
qed

text \<open>C9. The coprocessor ciphers the frame it is programmed for: after the session of the ROM for a key, a frame of the
  hyperframe and A5/1 or A5/2, the start is acknowledged and the completion interrupt is flagged, and the streams read
  back from the ports are those of the cipher for that key: uplink at the programmed frame (realigned by one on a late
  SACCH), downlink at the frame of the burst the BSP plays when that is within three frames.\<close>

theorem a5_session:
  assumes "a5_on e" and "length (akc s) = 4" and "length (acnt s) = 2" and "length key = 8" and "uint f < 2715648"
    and "mode = 1 \<or> mode = 2" and "cipher_ok osmo_a5" and "s' = a5_run osmo_a5 e (a5_program key f mode) s"
  shows "map_option (\<lambda>w. bit w 0) (calypso_a5_portr e 0x2802 s') = Some True \<and> bit (ifr s') 11
    \<and> a5_stream e 0x2809 s' = map (\<lambda>b. b \<noteq> 0) (fst (the (osmo_a5 (unat mode) key (a5_dl_fn e f))))
    \<and> a5_stream e 0x2811 s' = map (\<lambda>b. b \<noteq> 0) (snd (the (osmo_a5 (unat mode) key (a5_fn e f))))"
proof -
  have m: "unat mode = 1 \<or> unat mode = 2" using assms(6) by auto
  obtain dl ul where c: "osmo_a5 (unat mode) key (a5_fn e f) = Some (dl, ul)" "length dl = 114" "length ul = 114"
    using assms(7) m unfolding cipher_ok_def by blast
  obtain dl' ul' where c': "osmo_a5 (unat mode) key (a5_dl_fn e f) = Some (dl', ul')" "length dl' = 114"
    using assms(7) m unfolding cipher_ok_def by blast
  note e = assms(8) [unfolded a5_session_end [OF assms(1-3,6)]]
  have d: "a5_dl_fn e f = a5_fn e f \<Longrightarrow> dl' = dl" using c c' by simp
  have "flux s' = empaqueter dl' @ empaqueter ul"
    using c c' d unfolding e by (auto simp: a5_calculer_def a5_count_frame [OF assms(5)] a5_key_a_kc [OF assms(4)] a5_fn_def [symmetric]
        a5_dl_fn_def [symmetric] Let_def split: if_splits)
  from a5_stream_flux [OF assms(1) this c'(2) c(3)] show ?thesis
    using assms(1) c c' by (simp add: e a5_calculer_def calypso_a5_portr_def bit_set_bit_iff Let_def)
qed

definition demo_cipher :: cipher where
  "demo_cipher algo key f = Some (map (\<lambda>i. if bit (key ! (i mod 8)) (i mod 7) then 1 else 0) [0..<114], map (\<lambda>i. if bit f (i mod 22) then 1 else 0) [0..<114])"

definition demo_a5_env :: a5_env where
  "demo_a5_env = \<lparr>a5_on = True, recale = True, dl_bsp = True, dl_decal = 0, last_fn = 12, bsp_fn = Some 15\<rparr>"

theorem a5_session_witness:
  "let s' = a5_run demo_cipher demo_a5_env (a5_program [1, 2, 3, 4, 5, 6, 7, 8] 12 1) a5_init in
    map_option (\<lambda>w. bit w 0) (calypso_a5_portr demo_a5_env 0x2802 s') = Some True \<and> bit (ifr s') 11
    \<and> a5_stream demo_a5_env 0x2809 s' = map (\<lambda>b. b \<noteq> 0) (fst (the (demo_cipher (unat (1 :: u16)) [1, 2, 3, 4, 5, 6, 7, 8] (a5_dl_fn demo_a5_env 12))))
    \<and> a5_stream demo_a5_env 0x2811 s' = map (\<lambda>b. b \<noteq> 0) (snd (the (demo_cipher (unat (1 :: u16)) [1, 2, 3, 4, 5, 6, 7, 8] (a5_fn demo_a5_env 12))))
    \<and> a5_fn demo_a5_env 12 = 13 \<and> a5_dl_fn demo_a5_env 12 = 15"
proof -
  have "cipher_ok demo_cipher" by (simp add: cipher_ok_def demo_cipher_def)
  moreover have "a5_fn demo_a5_env 12 = 13" "a5_dl_fn demo_a5_env 12 = 15" by code_simp+
  ultimately show ?thesis
    using a5_session [where e = demo_a5_env and s = a5_init and key = "[1, 2, 3, 4, 5, 6, 7, 8]" and f = 12 and mode = 1 and ?osmo_a5.0 = demo_cipher, OF _ _ _ _ _ _ _ refl]
    by (simp add: demo_a5_env_def a5_init_def Let_def)
qed

end
