(* ===== verification/Spec2Isabelle.thy ===== *)
theory Spec2Isabelle
  imports Calypso_Prelude Ring Sercomm Inth Timer Uart Dcch_Tap L1ctl Gate Rf Tpu Comp128 Sim_Files Sim Trx_Clock Trx_Api Trx Trx_Rach Trx_Lockstep A5
begin

text \<open>
  A verification library for the Calypso machine of this QEMU fork: the devices of a TI Calypso GSM baseband
  (\<open>src/hw/arm/calypso\<close> and the device files under \<open>src/hw/intc\<close>, \<open>src/hw/timer\<close> and \<open>src/hw/char\<close>), which run the
  firmware of a phone against a DSP that is either emulated in another process or replaced by host code.

  \<^bold>\<open>The parts and how they interact.\<close> The ARM core (QEMU's own) runs the firmware. It sees the registers of the
  interrupt handler, the timers, the UARTs, the SIM interface and the transceiver block. The transceiver block
  (\<open>calypso_trx.c\<close>) owns the frame clock: at each TDMA frame it runs the TPU sequencer, which programs the radio front
  end through the time serial port, serves the UARTs, exchanges a frame with the DSP over a socket and shared RAM, and
  raises the frame interrupt. The DSP ciphers with the A5 coprocessor. The modem UART carries sercomm
  frames: the sercomm gate filters what the host sends, the L1CTL socket server and two taps listen to what the firmware
  sends. The SIM card computes COMP128.

  \<^bold>\<open>Which theory models what.\<close> A state of the source is a record of the same fields (a device struct, or the static
  variables of a file), an operation of the source is a definition of the same name.

  \<^item> \<open>Calypso_Prelude\<close>: the C integer types as words, flags by bit number, executions of a device under a guard
    (\<open>run\<close>, \<open>reaches\<close>), the locale \<open>device\<close> (an invariant of the initial state kept by every input), shared lemmas.
  \<^item> \<open>Ring\<close>: ring buffers as lists, the locale \<open>bounded_fifo\<close>. \<open>Sercomm\<close>: the framing, the locale \<open>sercomm_rx\<close> of its
    three-state receivers, interpreted four times.
  \<^item> \<open>Inth\<close> (\<open>calypso_inth.c\<close>): arbitration by priority and round robin, edge sources, acknowledgement.
  \<^item> \<open>Timer\<close> (\<open>calypso_timer.c\<close>): the down counter, its deadlines, the latch that counts lost frames.
  \<^item> \<open>Uart\<close> (\<open>calypso_uart.c\<close>): the receive ring, the registers, the interrupt line, the ROM loader stub.
  \<^item> \<open>Dcch_Tap\<close> (\<open>calypso_dcch_tap.c\<close>), \<open>L1ctl\<close> (\<open>calypso_l1ctl_tap.c\<close>, \<open>l1ctl_sock.c\<close>), \<open>Gate\<close> (\<open>sercomm_gate.c\<close>): the
    listeners and the filter of the serial stream.
  \<^item> \<open>Rf\<close> (\<open>calypso_tsp.c\<close>, \<open>calypso_trf6151.c\<close>), \<open>Tpu\<close> (\<open>calypso_tpu.c\<close>): the front end and the sequencer.
  \<^item> \<open>Comp128\<close> (\<open>calypso_comp128.c\<close>), \<open>Sim_Files\<close> and \<open>Sim\<close> (\<open>calypso_sim.c\<close>): the card.
  \<^item> \<open>Trx_Clock\<close>, \<open>Trx_Api\<close>, \<open>Trx\<close> (\<open>calypso_trx.c\<close>, the hooks of \<open>calypso_l1_dispatch.c\<close>): the frame clock, the API
    window, the bridge and the register blocks, composed with the models of the interrupt handler, the
    timer, the UARTs and the sequencer it drives. \<open>Trx_Rach\<close> and \<open>Trx_Lockstep\<close> hold their theorems.
  \<^item> \<open>A5\<close> (\<open>l1-dsp/calypso_a5.c\<close>): the cipher coprocessor.

  \<^bold>\<open>What the lemmas show.\<close> Each device theory proves an invariant of all reachable states through its interpretation of
  \<open>device\<close>, and on it the behaviour the firmware relies on: the arbitration is the specified choice and is fair among
  equals while the source that was read stays presented; the timer expires at the computed nanosecond; bytes are received in order; frames survive stuffing,
  forwarding and, within the buffers of the code, any segmentation of the stream; the sequencer performs exactly the writes its program
  places in time, and every program ends; the tuned channel is the programmed one; a SIM file reads back what was written;
  COMP128 in place equals its description by parallel substitutions. For the bridge: no frame is announced before the last
  one was answered, in lock-step no frame is skipped or repeated, the wait for the ARM is bounded, the end of
  interrupt of the ARM releases the DSP, and access attempts keep their frames. The coprocessor returns the streams of
  the cipher for the programmed key and frame. Where the code does not do what it means to, the theorem states
  what it does (overrun status, MEASURE answers, releases across the hyperframe, the SIM reset, the FIQ output, frames
  longer than 512 bytes, the correction of earlier access attempts), or a lemma beside the theorem does: a read of the
  L1CTL socket that does not fit the buffer drops the message it should complete, and the round robin moves past the
  source presented at the end of interrupt, which need not be the one that was read.

  \<^bold>\<open>Bounds and fuel.\<close> No definition takes fuel: loops over bounded ranges are folds, the pacing loop of the frame
  timer and the loop of the sequencer terminate by a measure. The sequencer ends within 3072 frame ticks because a
  scenario has at most 1024 instructions and each suspends it for at most three frames. The wait for the ARM ends
  after 64 times \<open>PONT_ATTENTES_MAX\<close> ticks, the largest count the code compares with.

  \<^bold>\<open>What is an argument.\<close> Clock readings, results of system calls, environment variables, file contents, messages
  from the DSP, the program counter and status of the ARM core, and the cipher of libosmocore. QEMU timers are their
  deadlines; interrupt lines are levels, or events of a trace where their order matters.

  \<^bold>\<open>Not modelled.\<close>
  The C54x core and the files around it (\<open>l1-dsp\<close> without the coprocessor: 30000 lines of an instruction set
  interpreter, its memory map, probes, the BSP, DMA, RIF and modem), because its correctness is relative to a processor
  manual and a mask ROM that are not part of the sources. The gr-gsm layer 1 (\<open>l1-grgsm/calypso_l1_grgsm.c\<close>), which decodes
  radio frames with an external library. The display, keypad, I2C, uWire and SPI controllers, the power amplifier, the
  antenna switch and IOTA files, and the XIO windows, which are register files apart from the path of a frame.
  The board and SoC files (address map and wiring), the console, debug, invariant and mailbox files
  (diagnostic output). Log lines and counters only printed. All of upstream QEMU, of which the devices use timers,
  interrupt lines, character devices and memory regions. Threads: the device code runs under QEMU's global lock, and the
  one thread of \<open>calypso_trx.c\<close> only advances a counter whose reading is an argument.
\<close>

end
